theory Spec2Isabelle
  imports Complex_Main "HOL-Library.Sublist"
begin

section \<open>JavaScript values, strings and plain objects\<close>

text \<open>
  The repository is JavaScript. A string is a list of characters (one \<^typ>\<open>char\<close> per code
  unit), a parameter value is a string, a number, a boolean or \<open>undefined\<close>. A finite
  number is the real number it denotes; \<open>NaN\<close> and the two infinities are values of
  their own.
\<close>

datatype js_value =
  Undefined | Str string | Num real | NaN | PosInfinity | NegInfinity | Bool bool

text \<open>
  A plain object (\<open>{}\<close>) is the list of its own properties in the order in which
  \<open>Object.keys\<close>, \<open>for-in\<close> and \<open>JSON.stringify\<close> enumerate them: array-index keys first, in
  ascending numeric order, then every other string key in creation order.
\<close>

type_synonym js_object = "(string \<times> js_value) list"

definition NL :: char where
  "NL = CHR 0x0A"


definition is_digit :: "char \<Rightarrow> bool" where
  "is_digit c = (c \<in> set ''0123456789'')"

definition digit_val :: "char \<Rightarrow> int" where
  "digit_val c = of_char c - 48"

definition decimal_value :: "string \<Rightarrow> int" where
  "decimal_value s = foldl (\<lambda>a c. 10 * a + digit_val c) 0 s"

text \<open>
  An array index is the canonical decimal form of an integer between \<open>0\<close> and
  \<open>2^32 - 2\<close>: digits only, no leading zero except for \<open>0\<close> itself.
\<close>

definition is_array_index :: "string \<Rightarrow> bool" where
  "is_array_index k =
     (k \<noteq> [] \<and> list_all is_digit k \<and> (k = ''0'' \<or> take 1 k \<noteq> ''0'')
      \<and> decimal_value k < 2 ^ 32 - 1)"

fun insert_index :: "string \<Rightarrow> js_value \<Rightarrow> js_object \<Rightarrow> js_object" where
  "insert_index k v [] = [(k, v)]"
| "insert_index k v ((k', v') # rest) =
     (if is_array_index k' \<and> decimal_value k' < decimal_value k
      then (k', v') # insert_index k v rest
      else (k, v) # (k', v') # rest)"

text \<open>
  Creating or overwriting the own data property \<open>k\<close>: an existing own property keeps its
  place and takes the new value; a new one goes where the enumeration order puts it.
\<close>

definition js_define :: "js_object \<Rightarrow> string \<Rightarrow> js_value \<Rightarrow> js_object" where
  "js_define obj k v =
     (if k \<in> fst ` set obj
        then map (\<lambda>(k', v'). if k' = k then (k', v) else (k', v')) obj
      else if is_array_index k then insert_index k v obj
      else obj @ [(k, v)])"

text \<open>
  The assignment \<open>obj[k] = v\<close> on an object created by \<open>{}\<close>, for a value that is not an
  object. The key \<open>__proto__\<close> reaches the setter inherited from \<open>Object.prototype\<close>,
  which ignores such a value: no own property is created.
\<close>

definition js_assign :: "js_object \<Rightarrow> string \<Rightarrow> js_value \<Rightarrow> js_object" where
  "js_assign obj k v = (if k = ''__proto__'' then obj else js_define obj k v)"




text \<open>
  Reading \<open>obj[k]\<close> for a key that \<open>Object.prototype\<close> does not define (\<open>limit\<close>,
  \<open>width\<close>, ...): the own property, or \<open>undefined\<close>.
\<close>

definition js_get :: "js_object \<Rightarrow> string \<Rightarrow> js_value" where
  "js_get obj k = (case map_of obj k of None \<Rightarrow> Undefined | Some v \<Rightarrow> v)"

text \<open>
  \<open>s.split(sep)\<close> for a non-empty separator string (the only kind the code uses): the
  pieces between the leftmost non-overlapping occurrences of \<open>sep\<close>; the empty string
  gives one empty piece.
\<close>

function split_sep :: "string \<Rightarrow> string \<Rightarrow> string list" where
  "split_sep sep [] = [[]]"
| "split_sep sep (c # cs) =
     (if sep \<noteq> [] \<and> take (length sep) (c # cs) = sep
      then [] # split_sep sep (drop (length sep) (c # cs))
      else (case split_sep sep cs of
              [] \<Rightarrow> [[c]]
            | p # ps \<Rightarrow> (c # p) # ps))"
  by pat_completeness auto
termination
  by (relation "measure (\<lambda>(sep, s). length s)") auto

text \<open>\<open>s.startsWith(p)\<close> and \<open>s.indexOf(c)\<close> for a one-character \<open>c\<close> (\<open>-1\<close> when absent).\<close>

definition startsWith :: "string \<Rightarrow> string \<Rightarrow> bool" where
  "startsWith s p = (take (length p) s = p)"


definition indexOf :: "string \<Rightarrow> char \<Rightarrow> int" where
  "indexOf s c = (if c \<in> set s then int (length (takeWhile (\<lambda>x. x \<noteq> c) s)) else - 1)"

text \<open>\<open>val[i]\<close> on the array a split returns: the element, or \<open>undefined\<close> out of range.\<close>

definition js_index :: "string list \<Rightarrow> nat \<Rightarrow> js_value" where
  "js_index xs i = (if i < length xs then Str (xs ! i) else Undefined)"

text \<open>
  The property key \<open>ToString(val[i])\<close>: the element itself, or the text \<open>undefined\<close> out
  of range.
\<close>

definition property_key :: "string list \<Rightarrow> nat \<Rightarrow> string" where
  "property_key xs i = (if i < length xs then xs ! i else ''undefined'')"

section \<open>sendquery.js: the header parser\<close>

text \<open>
  \<^verbatim>\<open>
  function getExtraParameters(query){
    return query.split('\n').
    filter(e => e.startsWith('---')).
    filter(e => e.indexOf(':') > 0).
    map(e => e.substring(4).split(': ')).
    reduce((acc, val) => { acc[val[0]] = val[1]; return acc; }, {})
  }
  \<close>
\<close>

definition getExtraParameters :: "string \<Rightarrow> js_object" where
  "getExtraParameters query =
     foldl (\<lambda>acc val. js_assign acc (property_key val 0) (js_index val 1)) []
       (map (\<lambda>e. split_sep '': '' (drop 4 e))
         (filter (\<lambda>e. indexOf e CHR '':'' > 0)
           (filter (\<lambda>e. startsWith e ''---'')
             (split_sep [NL] query))))"

section \<open>sendquery.js: loadQuery\<close>

text \<open>
  What a call can fail with: the error \<open>execute\<close> throws from its \<open>catch\<close> block, the error
  \<open>fs.readFileSync\<close> throws (with its code: nothing at the path, a directory there, no
  permission, a name that is no valid path, or another one), and the error a stream
  emits.
\<close>

datatype fs_error = ENOENT | EISDIR | EACCES | ERR_INVALID_ARG_VALUE | OtherCode string

datatype error = ExecuteError string | ReadError fs_error string | StreamError string

text \<open>
  \<^verbatim>\<open>
  function loadQuery(query, dir = null) {
    return fs.readFileSync(path.resolve(dir || __dirname, 'queries',
      `${query.replace(/^\//, '')}.sql`)).toString();
  }
  \<close>
  The key \<open>query_path query\<close> stands for the segments handed to \<open>path.resolve\<close>: the
  module's directory, \<open>queries\<close> and the name with its extension. What \<open>path.resolve\<close>
  makes of them (\<open>..\<close>, a second leading slash) and what is found there belongs to the file
  system, which is two functions of that key: the text of the file when the read
  succeeds (\<open>None\<close> when it fails), and the code of the error thrown when it fails.
\<close>

definition query_path :: "string \<Rightarrow> string" where
  "query_path query =
     ''queries/'' @ (if take 1 query = ''/'' then drop 1 query else query) @ ''.sql''"

definition loadQuery ::
  "(string \<rightharpoonup> string) \<Rightarrow> (string \<Rightarrow> fs_error) \<Rightarrow> string \<Rightarrow> error + string" where
  "loadQuery fs code query =
     (case fs (query_path query) of
        None \<Rightarrow> Inl (ReadError (code (query_path query)) (query_path query))
      | Some text \<Rightarrow> Inr text)"

section \<open>sendquery.js: execute\<close>

text \<open>
  A query stream emits its rows as \<open>data\<close> events and then either \<open>end\<close> or \<open>error\<close>.
\<close>

datatype terminator = End | Error string

type_synonym 'row stream = "'row list \<times> terminator"

text \<open>
  The promise \<open>execute\<close> returns is settled once; later calls of \<open>resolve\<close> and \<open>reject\<close> do
  nothing. The variables of the closure are \<open>results\<close> and \<open>avgsize\<close>; the resolved object
  holds the array \<open>results\<close> itself, so its rows are read from the final state. The field
  \<open>samples\<close> counts the calls of \<open>size(results)\<close>.
\<close>

datatype settlement = Resolve bool | Reject string

record 'row accumulation =
  results :: "'row list"
  avgsize :: real
  samples :: nat
  promise :: "settlement option"

datatype 'row outcome = Resolved bool "'row list" | Rejected error | Pending

text \<open>
  \<^verbatim>\<open>
  const spaceleft = () => {
    if (results.length === 10) {
      avgsize = size(results) / results.length;
    }
    if (avgsize * results.length > 1024 * 1024 * 0.9) {
      return false;
    }
    return true;
  };
  \<close>
  \<open>size\<close> is the \<open>json-size\<close> package: the parameter \<open>json_size_fn\<close>. The constant
  \<open>budget\<close> names the literal \<open>1024 * 1024 * 0.9\<close>. The arithmetic is that of the real
  numbers; the rounding of doubles is not modelled.
\<close>

definition budget :: real where
  "budget = 1024 * 1024 * 0.9"

definition spaceleft ::
  "('row list \<Rightarrow> real) \<Rightarrow> 'row accumulation \<Rightarrow> bool \<times> 'row accumulation" where
  "spaceleft json_size_fn s =
     (let s1 = (if length (results s) = 10
                then s\<lparr>avgsize := json_size_fn (results s) / real (length (results s)),
                       samples := samples s + 1\<rparr>
                else s)
      in if avgsize s1 * real (length (results s1)) > budget
         then (False, s1)
         else (True, s1))"

definition settle :: "settlement \<Rightarrow> 'row accumulation \<Rightarrow> 'row accumulation" where
  "settle x s = (case promise s of None \<Rightarrow> s\<lparr>promise := Some x\<rparr> | Some y \<Rightarrow> s)"

text \<open>
  \<^verbatim>\<open>
  .on('data', (row) => (spaceleft() ? results.push(row) : resolve({ truncated: true, results })))
  .on('error', (e) => reject(e))
  .on('end', () => resolve({ truncated: false, results }));
  \<close>
\<close>

definition on_data ::
  "('row list \<Rightarrow> real) \<Rightarrow> 'row \<Rightarrow> 'row accumulation \<Rightarrow> 'row accumulation" where
  "on_data json_size_fn row s =
     (case spaceleft json_size_fn s of
        (True, s1) \<Rightarrow> s1\<lparr>results := results s1 @ [row]\<rparr>
      | (False, s1) \<Rightarrow> settle (Resolve True) s1)"

definition on_terminator :: "terminator \<Rightarrow> 'row accumulation \<Rightarrow> 'row accumulation" where
  "on_terminator t s =
     (case t of End \<Rightarrow> settle (Resolve False) s | Error e \<Rightarrow> settle (Reject e) s)"

definition feed ::
  "('row list \<Rightarrow> real) \<Rightarrow> 'row list \<Rightarrow> 'row accumulation \<Rightarrow> 'row accumulation" where
  "feed json_size_fn rows s = foldl (\<lambda>s row. on_data json_size_fn row s) s rows"

definition consume :: "('row list \<Rightarrow> real) \<Rightarrow> 'row stream \<Rightarrow> 'row outcome" where
  "consume json_size_fn st =
     (let s = on_terminator (snd st)
                (feed json_size_fn (fst st)
                   \<lparr>results = [], avgsize = 0, samples = 0, promise = None\<rparr>)
      in case promise s of
           None \<Rightarrow> Pending
         | Some (Resolve b) \<Rightarrow> Resolved b (results s)
         | Some (Reject e) \<Rightarrow> Rejected (StreamError e))"

text \<open>
  What \<open>execute\<close> calls outside itself, in order: the credential provider, the dataset
  lookup, the file read of \<open>loadQuery\<close>, and the query submission with its three options
  \<open>query\<close>, \<open>maxResults\<close> and \<open>params\<close>. The email, the key and the project are passed on
  as they come, whatever their type \<open>'c\<close>.
\<close>

datatype 'c call =
    Auth 'c 'c
  | DatasetGet 'c string
  | ReadFile string
  | CreateQueryStream string js_value js_object

text \<open>
  The world around \<open>execute\<close>: \<open>auth\<close> of \<open>auth.js\<close>, the dataset lookup and the query
  stream of the BigQuery client, the file system, the \<open>json-size\<close> package, and the
  built-in \<open>parseInt(v, 10)\<close>, whose result is a number value (\<open>NaN\<close> included).
\<close>

record ('row, 'c) world =
  auth :: "'c \<Rightarrow> 'c \<Rightarrow> string + string"
  dataset_get :: "'c \<Rightarrow> string \<Rightarrow> string \<Rightarrow> string + unit"
  files :: "string \<rightharpoonup> string"
  read_error :: "string \<Rightarrow> fs_error"
  parseInt :: "js_value \<Rightarrow> js_value"
  query_stream :: "string \<Rightarrow> js_value \<Rightarrow> js_object \<Rightarrow> 'row stream"
  json_size :: "'row list \<Rightarrow> real"

text \<open>
  \<^verbatim>\<open>
  async function execute(email, key, project, query, service, params = { limit: 100 }) {
    try {
      const credentials = await auth(email, key);
      const bq = new BigQuery({ projectId: project, credentials });
      const [dataset] = await bq.dataset(`helix_logging_${service}`, { location: 'US' }).get();
      return new Promise((resolve, reject) => {
        ...
        dataset.createQueryStream({
          query: loadQuery(query),
          maxResults: parseInt(params.limit, 10),
          params,
        }) ...
      });
    } catch (e) {
      throw new Error(`Unable to execute Google Query: ${e.message}`);
    }
  }
  \<close>
  A failure of \<open>auth\<close> or of the dataset lookup carries its message (\<open>Inl\<close>). An exception
  of \<open>loadQuery\<close> is thrown inside the promise's executor and rejects the promise as it
  is. An omitted \<open>service\<close> or \<open>params\<close> is \<open>None\<close>.
\<close>

definition params_or_default :: "js_object option \<Rightarrow> js_object" where
  "params_or_default params_arg =
     (case params_arg of None \<Rightarrow> [(''limit'', Num 100)] | Some p \<Rightarrow> p)"

definition dataset_name :: "string option \<Rightarrow> string" where
  "dataset_name service =
     ''helix_logging_'' @ (case service of None \<Rightarrow> ''undefined'' | Some sv \<Rightarrow> sv)"

definition execute ::
  "('row, 'c) world \<Rightarrow> 'c \<Rightarrow> 'c \<Rightarrow> 'c \<Rightarrow> string \<Rightarrow> string option \<Rightarrow> js_object option
     \<Rightarrow> 'c call list \<times> 'row outcome" where
  "execute w email key project query service params_arg =
     (let params = params_or_default params_arg;
          name = dataset_name service
      in case auth w email key of
           Inl msg \<Rightarrow>
             ([Auth email key],
              Rejected (ExecuteError (''Unable to execute Google Query: '' @ msg)))
         | Inr credentials \<Rightarrow>
             (case dataset_get w project credentials name of
                Inl msg \<Rightarrow>
                  ([Auth email key, DatasetGet project name],
                   Rejected (ExecuteError (''Unable to execute Google Query: '' @ msg)))
              | Inr dataset \<Rightarrow>
                  (case loadQuery (files w) (read_error w) query of
                     Inl e \<Rightarrow>
                       ([Auth email key, DatasetGet project name, ReadFile (query_path query)],
                        Rejected e)
                   | Inr sql \<Rightarrow>
                       ([Auth email key, DatasetGet project name, ReadFile (query_path query),
                         CreateQueryStream sql (parseInt w (js_get params ''limit'')) params],
                        consume (json_size w)
                          (query_stream w sql (parseInt w (js_get params ''limit'')) params)))))"

text \<open>The query texts and the parameter maps that a run submitted to the warehouse.\<close>

fun submitted_sql :: "'c call list \<Rightarrow> string list" where
  "submitted_sql [] = []"
| "submitted_sql (CreateQueryStream sql m p # cs) = sql # submitted_sql cs"
| "submitted_sql (c # cs) = submitted_sql cs"

fun submitted_params :: "'c call list \<Rightarrow> js_object list" where
  "submitted_params [] = []"
| "submitted_params (CreateQueryStream sql m p # cs) = p # submitted_params cs"
| "submitted_params (c # cs) = submitted_params cs"

fun submitted_maxResults :: "'c call list \<Rightarrow> js_value list" where
  "submitted_maxResults [] = []"
| "submitted_maxResults (CreateQueryStream sql m p # cs) = m # submitted_maxResults cs"
| "submitted_maxResults (c # cs) = submitted_maxResults cs"

fun warehouse_call :: "'c call \<Rightarrow> bool" where
  "warehouse_call (ReadFile p) = False"
| "warehouse_call c = True"

section \<open>index.js: storeResult and runExec\<close>
















section \<open>The size estimate of the truncation policy\<close>

text \<open>
  The spec's words for the policy: the average row size is the serialized size of the
  first ten rows divided by ten, and the estimate for \<open>j\<close> accumulated rows
  (\<open>j\<close> at least ten) crosses the budget when that average times \<open>j\<close> exceeds
  \<open>1024 * 1024 * 0.9\<close>, the constant \<^const>\<open>budget\<close>.
\<close>

definition estimate_exceeds :: "('row list \<Rightarrow> real) \<Rightarrow> 'row list \<Rightarrow> nat \<Rightarrow> bool" where
  "estimate_exceeds json_size_fn rows j =
     (10 \<le> j \<and> json_size_fn (take 10 rows) / 10 * real j > budget)"

section \<open>Concrete inputs\<close>

text \<open>
  The values of \<open>parseInt(v, 10)\<close> at the arguments that occur below: the text \<open>10\<close> and
  the numbers \<open>100\<close> and \<open>5\<close>. No other argument occurs; \<open>NaN\<close> fills the table there.
\<close>

definition example_parseInt :: "js_value \<Rightarrow> js_value" where
  "example_parseInt v =
     (if v = Str ''10'' then Num 10
      else if v = Num 100 then Num 100
      else if v = Num 5 then Num 5
      else NaN)"

text \<open>
  A world whose credential provider and dataset lookup succeed, over a given file system
  (a path with no file gives \<open>ENOENT\<close>) and a given stream; a row is a number, its
  serialized size.
\<close>

definition example_world :: "(string \<rightharpoonup> string) \<Rightarrow> nat stream \<Rightarrow> (nat, string) world" where
  "example_world fs st =
     \<lparr>auth = (\<lambda>email key. Inr ''token''),
      dataset_get = (\<lambda>project credentials name. Inr ()),
      files = fs,
      read_error = (\<lambda>path. ENOENT),
      parseInt = example_parseInt,
      query_stream = (\<lambda>sql maxResults params. st),
      json_size = (\<lambda>rows. real (sum_list rows))\<rparr>"

text \<open>The same world with a credential provider that refuses.\<close>

definition refusing_world :: "(string \<rightharpoonup> string) \<Rightarrow> nat stream \<Rightarrow> (nat, string) world" where
  "refusing_world fs st = (example_world fs st)\<lparr>auth := (\<lambda>email key. Inl ''invalid_grant'')\<rparr>"

text \<open>The same world with a dataset lookup that fails.\<close>

definition datasetless_world :: "(string \<rightharpoonup> string) \<Rightarrow> nat stream \<Rightarrow> (nat, string) world" where
  "datasetless_world fs st =
     (example_world fs st)\<lparr>dataset_get := (\<lambda>project credentials name. Inl ''Not found: Dataset'')\<rparr>"

definition example_template :: string where
  "example_template =
     ''--- url: -'' @ [NL] @ ''--- limit: 100'' @ [NL] @ ''--- within: '' @ [NL]
     @ ''SELECT 1'' @ [NL] @ ''# hlx:metadata'' @ [NL] @ ''SELECT COUNT(*) AS total_rows''"

definition example_files :: "string \<rightharpoonup> string" where
  "example_files = [''queries/rum.sql'' \<mapsto> example_template]"

definition big_rows :: "nat list" where
  "big_rows =
     [100000, 100000, 100000, 100000, 100000, 100000, 100000, 100000, 100000, 100000,
      100000, 100000]"

definition small_rows :: "nat list" where
  "small_rows = [5000000, 7, 9]"

text \<open>
  The spec's words for the sentinel: a template has a metadata block when one of its
  lines is \<open># hlx:metadata\<close>.
\<close>

definition has_metadata_sentinel :: "string \<Rightarrow> bool" where
  "has_metadata_sentinel template = (''# hlx:metadata'' \<in> set (split_sep [NL] template))"

section \<open>The header format in the spec's words\<close>

text \<open>
  The spec's parsing rule: any line starting with \<open>---\<close> and containing \<open>:\<close> is a metadata
  line; it is split into key and value after a fixed offset.
\<close>

definition is_metadata_line :: "string \<Rightarrow> bool" where
  "is_metadata_line e = (startsWith e ''---'' \<and> CHR '':'' \<in> set e)"

definition metadata_lines :: "string \<Rightarrow> string list" where
  "metadata_lines query = filter is_metadata_line (split_sep [NL] query)"

definition header_key :: "string \<Rightarrow> string" where
  "header_key e = property_key (split_sep '': '' (drop 4 e)) 0"

definition header_value :: "string \<Rightarrow> js_value" where
  "header_value e = js_index (split_sep '': '' (drop 4 e)) 1"

definition header_entry :: "string \<Rightarrow> string \<times> js_value" where
  "header_entry e = (header_key e, header_value e)"

text \<open>
  The enumeration order of a plain object, said of a list of keys: array-index keys come
  first, in ascending numeric order (no array index follows a key that is none, or a
  larger index); and the creation order of the other keys, each at the place of its first
  assignment.
\<close>

fun index_first :: "string list \<Rightarrow> bool" where
  "index_first [] = True"
| "index_first [k] = True"
| "index_first (k1 # k2 # ks) =
     ((if is_array_index k2 then is_array_index k1 \<and> decimal_value k1 \<le> decimal_value k2
       else True)
      \<and> index_first (k2 # ks))"

definition add_key :: "string list \<Rightarrow> string \<Rightarrow> string list" where
  "add_key acc k = (if k \<in> set acc then acc else acc @ [k])"

definition creation_order :: "string list \<Rightarrow> string list" where
  "creation_order ks = foldl add_key [] ks"

text \<open>The reducer's step \<open>acc[key] = value\<close> on such an entry.\<close>

definition assign_entry :: "js_object \<Rightarrow> string \<times> js_value \<Rightarrow> js_object" where
  "assign_entry acc kv = js_assign acc (fst kv) (snd kv)"

definition duplicate_keys_template :: string where
  "duplicate_keys_template =
     ''--- b: 1'' @ [NL] @ ''--- 7: x'' @ [NL] @ ''--- b: 2'' @ [NL] @ ''SELECT 1''"






section \<open>The streaming accumulation policy\<close>

lemma budget_pos: "0 < budget"
  by (simp add: budget_def)

lemma on_data_eq:
  "on_data f x s =
     (if budget < (if length (results s) = 10 then f (results s) / 10 else avgsize s)
                   * real (length (results s))
      then settle (Resolve True)
             (s\<lparr>avgsize := (if length (results s) = 10 then f (results s) / 10 else avgsize s),
                samples := (if length (results s) = 10 then samples s + 1 else samples s)\<rparr>)
      else s\<lparr>avgsize := (if length (results s) = 10 then f (results s) / 10 else avgsize s),
             samples := (if length (results s) = 10 then samples s + 1 else samples s),
             results := results s @ [x]\<rparr>)"
  by (simp add: on_data_def spaceleft_def Let_def)

lemma feed_append: "feed f (xs @ ys) s = feed f ys (feed f xs s)"
  by (simp add: feed_def)

lemma feed_snoc: "feed f (xs @ [x]) s = on_data f x (feed f xs s)"
  by (simp add: feed_def)

lemma feed_Nil: "feed f [] s = s"
  by (simp add: feed_def)

lemma feed_Cons: "feed f (x # xs) s = feed f xs (on_data f x s)"
  by (simp add: feed_def)

lemma estimate_exceeds_snoc:
  "j < length xs \<Longrightarrow> estimate_exceeds f (xs @ [x]) j = estimate_exceeds f xs j"
  by (auto simp: estimate_exceeds_def)

lemma feed_no_crossing:
  "\<forall>j<length rows. \<not> estimate_exceeds f rows j \<Longrightarrow>
   feed f rows \<lparr>results = [], avgsize = 0, samples = 0, promise = None\<rparr> =
     \<lparr>results = rows,
      avgsize = (if length rows \<le> 10 then 0 else f (take 10 rows) / 10),
      samples = (if length rows \<le> 10 then 0 else 1),
      promise = None\<rparr>"
proof (induction rows rule: rev_induct)
  case Nil
  show ?case by (simp add: feed_Nil)
next
  case (snoc x xs)
  have "\<forall>j<length xs. \<not> estimate_exceeds f xs j"
    using snoc.prems estimate_exceeds_snoc [of _ xs f x]
    by (metis length_append_singleton less_Suc_eq)
  then have IH: "feed f xs \<lparr>results = [], avgsize = 0, samples = 0, promise = None\<rparr> =
     \<lparr>results = xs, avgsize = (if length xs \<le> 10 then 0 else f (take 10 xs) / 10),
      samples = (if length xs \<le> 10 then 0 else 1), promise = None\<rparr>"
    by (rule snoc.IH)
  have last: "\<not> estimate_exceeds f (xs @ [x]) (length xs)"
    using snoc.prems by simp
  consider "length xs < 10" | "length xs = 10" | "10 < length xs" by linarith
  then show ?case
  proof cases
    case 1
    then show ?thesis
      using budget_pos by (simp add: feed_snoc IH on_data_eq)
  next
    case 2
    with last show ?thesis
      by (simp add: feed_snoc IH on_data_eq estimate_exceeds_def)
  next
    case 3
    with last show ?thesis
      by (simp add: feed_snoc IH on_data_eq estimate_exceeds_def)
  qed
qed

lemma on_data_settled:
  assumes "promise s = Some (Resolve True)" and "10 \<le> length (results s)"
    and "avgsize s = f (take 10 (results s)) / 10"
    and "avgsize s * real (length (results s)) > budget"
  shows "on_data f x s =
           s\<lparr>samples := (if length (results s) = 10 then samples s + 1 else samples s)\<rparr>"
proof (cases "length (results s) = 10")
  case True
  then have "(if length (results s) = 10 then f (results s) / 10 else avgsize s) = avgsize s"
    using assms(3) by simp
  then show ?thesis
    using assms(1,4) by (simp add: on_data_eq settle_def)
next
  case False
  then show ?thesis
    using assms(1,4) by (simp add: on_data_eq settle_def)
qed

lemma feed_settled:
  assumes "promise s = Some (Resolve True)" and "10 \<le> length (results s)"
    and "avgsize s = f (take 10 (results s)) / 10"
    and "avgsize s * real (length (results s)) > budget"
  shows "feed f xs s =
           s\<lparr>samples := (if length (results s) = 10 then samples s + length xs else samples s)\<rparr>"
  using assms
proof (induction xs arbitrary: s)
  case Nil
  show ?case by (simp add: feed_Nil)
next
  case (Cons x xs)
  let ?s = "s\<lparr>samples := (if length (results s) = 10 then samples s + 1 else samples s)\<rparr>"
  have step: "on_data f x s = ?s"
    using Cons.prems by (rule on_data_settled)
  have "feed f xs ?s =
      ?s\<lparr>samples := (if length (results ?s) = 10 then samples ?s + length xs else samples ?s)\<rparr>"
    using Cons.prems by (intro Cons.IH) simp_all
  then show ?case by (simp add: feed_Cons step)
qed

lemma feed_crossing:
  assumes m: "m < length rows" and ex: "estimate_exceeds f rows m"
    and least: "\<forall>j<m. \<not> estimate_exceeds f rows j"
  shows "feed f rows \<lparr>results = [], avgsize = 0, samples = 0, promise = None\<rparr> =
     \<lparr>results = take m rows, avgsize = f (take 10 rows) / 10,
      samples = (if m = 10 then length rows - 10 else 1), promise = Some (Resolve True)\<rparr>"
proof -
  have m10: "10 \<le> m" using ex by (simp add: estimate_exceeds_def)
  have over: "budget < f (take 10 rows) / 10 * real m" using ex by (simp add: estimate_exceeds_def)
  have t10: "take 10 (take m rows) = take 10 rows" using m10 by (simp add: min_def)
  have lm: "length (take m rows) = m" using m by simp
  have "\<forall>j<length (take m rows). \<not> estimate_exceeds f (take m rows) j"
    using least m t10 by (simp add: estimate_exceeds_def)
  then have pre: "feed f (take m rows) \<lparr>results = [], avgsize = 0, samples = 0, promise = None\<rparr> =
     \<lparr>results = take m rows,
      avgsize = (if length (take m rows) \<le> 10 then 0 else f (take 10 (take m rows)) / 10),
      samples = (if length (take m rows) \<le> 10 then 0 else 1),
      promise = None\<rparr>"
    by (rule feed_no_crossing)
  obtain r rest where dr: "drop m rows = r # rest"
    using m by (cases "drop m rows") simp_all
  have lrest: "length rest = length rows - m - 1"
    using dr by (metis diff_Suc_eq_diff_pred diff_diff_left length_Cons length_drop
        plus_1_eq_Suc diff_Suc_1)
  have step0: "on_data f r
       \<lparr>results = take m rows,
        avgsize = (if length (take m rows) \<le> 10 then 0 else f (take 10 (take m rows)) / 10),
        samples = (if length (take m rows) \<le> 10 then 0 else 1),
        promise = None\<rparr> =
     \<lparr>results = take m rows, avgsize = f (take 10 rows) / 10, samples = 1,
      promise = Some (Resolve True)\<rparr>"
  proof (cases "m = 10")
    case True
    then show ?thesis
      using over m by (simp add: on_data_eq settle_def)
  next
    case False
    then have "10 < m" using m10 by simp
    then show ?thesis
      using over m t10 by (simp add: on_data_eq settle_def)
  qed
  have step: "on_data f r
       (feed f (take m rows) \<lparr>results = [], avgsize = 0, samples = 0, promise = None\<rparr>) =
     \<lparr>results = take m rows, avgsize = f (take 10 rows) / 10, samples = 1,
      promise = Some (Resolve True)\<rparr>"
    by (simp only: pre step0)
  have "feed f rows \<lparr>results = [], avgsize = 0, samples = 0, promise = None\<rparr> =
        feed f (take m rows @ r # rest)
          \<lparr>results = [], avgsize = 0, samples = 0, promise = None\<rparr>"
    using dr by (metis append_take_drop_id)
  also have "\<dots> = feed f rest
     \<lparr>results = take m rows, avgsize = f (take 10 rows) / 10, samples = 1,
      promise = Some (Resolve True)\<rparr>"
    by (simp add: feed_append feed_Cons step)
  also have "\<dots> =
     \<lparr>results = take m rows, avgsize = f (take 10 rows) / 10, samples = 1,
      promise = Some (Resolve True)\<rparr>
     \<lparr>samples := (if length (take m rows) = 10 then 1 + length rest else 1)\<rparr>"
    using m10 over t10 lm by (subst feed_settled) simp_all
  also have "\<dots> =
     \<lparr>results = take m rows, avgsize = f (take 10 rows) / 10,
      samples = (if m = 10 then length rows - 10 else 1), promise = Some (Resolve True)\<rparr>"
    using m lm lrest by (cases "m = 10") auto
  finally show ?thesis .
qed

lemma consume_no_crossing:
  assumes "\<forall>j<length rows. \<not> estimate_exceeds f rows j"
  shows "consume f (rows, t) =
     (case t of End \<Rightarrow> Resolved False rows | Error e \<Rightarrow> Rejected (StreamError e))"
  by (simp add: consume_def feed_no_crossing [OF assms] on_terminator_def settle_def
      split: terminator.splits)

lemma consume_crossing:
  assumes "m < length rows" and "estimate_exceeds f rows m"
    and "\<forall>j<m. \<not> estimate_exceeds f rows j"
  shows "consume f (rows, t) = Resolved True (take m rows)"
  by (simp add: consume_def feed_crossing [OF assms] on_terminator_def settle_def
      split: terminator.splits)

lemma least_crossing:
  assumes "\<exists>j<length rows. estimate_exceeds f rows j"
  shows "(LEAST j. estimate_exceeds f rows j) < length rows"
    and "estimate_exceeds f rows (LEAST j. estimate_exceeds f rows j)"
    and "\<forall>j<(LEAST j. estimate_exceeds f rows j). \<not> estimate_exceeds f rows j"
proof -
  from assms obtain j where j: "j < length rows" "estimate_exceeds f rows j" by blast
  show "estimate_exceeds f rows (LEAST j. estimate_exceeds f rows j)"
    using j(2) by (rule LeastI)
  have "(LEAST j. estimate_exceeds f rows j) \<le> j" using j(2) by (rule Least_le)
  then show "(LEAST j. estimate_exceeds f rows j) < length rows" using j(1) by simp
  show "\<forall>j<(LEAST j. estimate_exceeds f rows j). \<not> estimate_exceeds f rows j"
    using not_less_Least by blast
qed

lemma consume_characterisation:
  "consume f (rows, t) =
     (if \<exists>j<length rows. estimate_exceeds f rows j
      then Resolved True (take (LEAST j. estimate_exceeds f rows j) rows)
      else (case t of End \<Rightarrow> Resolved False rows | Error e \<Rightarrow> Rejected (StreamError e)))"
proof (cases "\<exists>j<length rows. estimate_exceeds f rows j")
  case True
  have "consume f (rows, t) = Resolved True (take (LEAST j. estimate_exceeds f rows j) rows)"
    using least_crossing [OF True] by (rule consume_crossing)
  then show ?thesis by (simp only: if_P [OF True])
next
  case False
  then have "\<forall>j<length rows. \<not> estimate_exceeds f rows j" by simp
  then have "consume f (rows, t) =
     (case t of End \<Rightarrow> Resolved False rows | Error e \<Rightarrow> Rejected (StreamError e))"
    by (rule consume_no_crossing)
  then show ?thesis by (simp only: if_not_P [OF False])
qed

lemma execute_submitted:
  assumes "CreateQueryStream sql m p \<in> set (fst (execute w email key project query service params))"
  shows "snd (execute w email key project query service params) =
           consume (json_size w) (query_stream w sql m p)"
  using assms
  by (auto simp: execute_def Let_def split: sum.splits)

lemma estimate_monotone:
  assumes "estimate_exceeds f rows j" and "j \<le> k"
  shows "estimate_exceeds f rows k"
proof -
  have pos: "0 < f (take 10 rows) / 10"
  proof (rule ccontr)
    assume "\<not> 0 < f (take 10 rows) / 10"
    then have "f (take 10 rows) / 10 * real j \<le> 0"
      by (simp add: mult_nonpos_nonneg)
    then show False using assms(1) budget_pos by (simp add: estimate_exceeds_def)
  qed
  have "f (take 10 rows) / 10 * real j \<le> f (take 10 rows) / 10 * real k"
    using pos assms(2) by (simp add: mult_left_mono)
  then show ?thesis using assms by (simp add: estimate_exceeds_def)
qed

lemma feed_avgsize_samples:
  "avgsize (feed f rows \<lparr>results = [], avgsize = 0, samples = 0, promise = None\<rparr>) =
     (if length rows \<le> 10 then 0 else f (take 10 rows) / 10)
   \<and> samples (feed f rows \<lparr>results = [], avgsize = 0, samples = 0, promise = None\<rparr>) =
     (if length rows \<le> 10 then 0
      else if estimate_exceeds f rows 10 then length rows - 10 else 1)"
proof (cases "\<exists>j<length rows. estimate_exceeds f rows j")
  case True
  define n where "n = (LEAST j. estimate_exceeds f rows j)"
  have n: "n < length rows" "estimate_exceeds f rows n"
    unfolding n_def by (rule least_crossing(1) [OF True], rule least_crossing(2) [OF True])
  have least: "\<forall>j<n. \<not> estimate_exceeds f rows j"
    unfolding n_def by (rule least_crossing(3) [OF True])
  have n10: "10 \<le> n" using n(2) by (simp add: estimate_exceeds_def)
  have long: "\<not> length rows \<le> 10" using n(1) n10 by simp
  have ten: "estimate_exceeds f rows 10 \<longleftrightarrow> n = 10"
  proof
    assume "estimate_exceeds f rows 10"
    then have "\<not> 10 < n" using least by blast
    then show "n = 10" using n10 by simp
  next
    assume "n = 10"
    then show "estimate_exceeds f rows 10" using n(2) by simp
  qed
  show ?thesis
    using long by (simp add: feed_crossing [OF n least] ten)
next
  case False
  then have none: "\<forall>j<length rows. \<not> estimate_exceeds f rows j" by simp
  have "10 < length rows \<Longrightarrow> \<not> estimate_exceeds f rows 10"
    using none by simp
  then show ?thesis by (auto simp: feed_no_crossing [OF none])
qed

text \<open>
  Claim C1, as the code has it. For every row stream that \<open>execute\<close> consumes, the promise
  resolves with \<open>truncated = true\<close> exactly when a row arrives while the sampled estimate
  exceeds the budget: the result then holds the rows accumulated before that row, as many
  as the least row count \<open>j \<ge> 10\<close> whose estimate crosses (so at most \<open>k\<close> for every crossing
  count \<open>k\<close>). A stream whose estimate never crosses at an arrival runs to its end and
  resolves with \<open>truncated = false\<close> and every row (or rejects with the stream's error).
  The average is not sampled exactly once: \<open>size(results)\<close> is called at every arrival that
  finds exactly ten accumulated rows, that is never for a stream of at most ten rows, once
  when the eleventh row is accepted, and at each arrival from the eleventh on when the
  stream is truncated at ten rows. Every sample gives the same value, the size of the
  first ten rows over ten; the average is \<open>0\<close> before the first one.
\<close>

theorem execute_truncated_iff_estimate_crossed:
  assumes "CreateQueryStream sql m p
             \<in> set (fst (execute w email key project query service params))"
    and "query_stream w sql m p = (rows, t)"
  shows "snd (execute w email key project query service params) =
           (if \<exists>j<length rows. estimate_exceeds (json_size w) rows j
            then Resolved True (take (LEAST j. estimate_exceeds (json_size w) rows j) rows)
            else (case t of End \<Rightarrow> Resolved False rows
                  | Error e \<Rightarrow> Rejected (StreamError e)))
         \<and> (\<forall>k. estimate_exceeds (json_size w) rows k \<longrightarrow>
                10 \<le> (LEAST j. estimate_exceeds (json_size w) rows j)
                \<and> (LEAST j. estimate_exceeds (json_size w) rows j) \<le> k)
         \<and> avgsize (feed (json_size w) rows
                      \<lparr>results = [], avgsize = 0, samples = 0, promise = None\<rparr>) =
             (if length rows \<le> 10 then 0 else json_size w (take 10 rows) / 10)
         \<and> samples (feed (json_size w) rows
                      \<lparr>results = [], avgsize = 0, samples = 0, promise = None\<rparr>) =
             (if length rows \<le> 10 then 0
              else if estimate_exceeds (json_size w) rows 10 then length rows - 10 else 1)"
proof (intro conjI allI impI)
  show "snd (execute w email key project query service params) =
           (if \<exists>j<length rows. estimate_exceeds (json_size w) rows j
            then Resolved True (take (LEAST j. estimate_exceeds (json_size w) rows j) rows)
            else (case t of End \<Rightarrow> Resolved False rows
                  | Error e \<Rightarrow> Rejected (StreamError e)))"
    by (simp only: execute_submitted [OF assms(1)] assms(2) consume_characterisation)
next
  fix k assume k: "estimate_exceeds (json_size w) rows k"
  have "estimate_exceeds (json_size w) rows (LEAST j. estimate_exceeds (json_size w) rows j)"
    using k by (rule LeastI)
  then show "10 \<le> (LEAST j. estimate_exceeds (json_size w) rows j)"
    by (simp add: estimate_exceeds_def)
  show "(LEAST j. estimate_exceeds (json_size w) rows j) \<le> k"
    using k by (rule Least_le)
next
  show "avgsize (feed (json_size w) rows
                      \<lparr>results = [], avgsize = 0, samples = 0, promise = None\<rparr>) =
             (if length rows \<le> 10 then 0 else json_size w (take 10 rows) / 10)"
    by (rule conjunct1 [OF feed_avgsize_samples])
next
  show "samples (feed (json_size w) rows
                      \<lparr>results = [], avgsize = 0, samples = 0, promise = None\<rparr>) =
             (if length rows \<le> 10 then 0
              else if estimate_exceeds (json_size w) rows 10 then length rows - 10 else 1)"
    by (rule conjunct2 [OF feed_avgsize_samples])
qed

lemma query_path_rum: "query_path ''rum'' = ''queries/rum.sql''"
  by (simp add: query_path_def)

lemma example_files_rum: "example_files ''queries/rum.sql'' = Some example_template"
  by (simp add: example_files_def)

lemma example_files_nope: "example_files (query_path ''nope'') = None"
  by (simp add: example_files_def query_path_def)

lemma example_parseInt_values:
  "example_parseInt (Str ''10'') = Num 10" "example_parseInt (Num 100) = Num 100"
  "example_parseInt (Num 5) = Num 5"
  by (simp_all add: example_parseInt_def)

lemma execute_example_calls:
  "fst (execute (example_world example_files st) ''e'' ''k'' ''p'' ''rum'' None None) =
     [Auth ''e'' ''k'', DatasetGet ''p'' ''helix_logging_undefined'', ReadFile ''queries/rum.sql'',
      CreateQueryStream example_template (Num 100) [(''limit'', Num 100)]]"
  by (simp add: execute_def example_world_def loadQuery_def example_files_rum query_path_rum
      params_or_default_def dataset_name_def js_get_def Let_def example_parseInt_values)

lemma big_rows_crossing:
  "estimate_exceeds (\<lambda>rows. real (sum_list rows)) big_rows 10"
  by (simp add: estimate_exceeds_def big_rows_def budget_def)

theorem execute_truncated_iff_estimate_crossed_witness:
  "CreateQueryStream example_template (Num 100) [(''limit'', Num 100)]
     \<in> set (fst (execute (example_world example_files (big_rows, End))
                  ''e'' ''k'' ''p'' ''rum'' None None))
   \<and> query_stream (example_world example_files (big_rows, End))
        example_template (Num 100) [(''limit'', Num 100)] = (big_rows, End)
   \<and> snd (execute (example_world example_files (big_rows, End))
            ''e'' ''k'' ''p'' ''rum'' None None) = Resolved True (take 10 big_rows)"
proof -
  let ?w = "example_world example_files (big_rows, End)"
  have h1: "CreateQueryStream example_template (Num 100) [(''limit'', Num 100)]
     \<in> set (fst (execute ?w ''e'' ''k'' ''p'' ''rum'' None None))"
    by (simp add: execute_example_calls)
  have h2: "query_stream ?w example_template (Num 100) [(''limit'', Num 100)] = (big_rows, End)"
    by (simp add: example_world_def)
  have ex: "estimate_exceeds (json_size ?w) big_rows 10"
    using big_rows_crossing by (simp add: example_world_def)
  have least: "(LEAST j. estimate_exceeds (json_size ?w) big_rows j) = 10"
    using ex by (rule Least_equality) (simp add: estimate_exceeds_def)
  have some: "\<exists>j<length big_rows. estimate_exceeds (json_size ?w) big_rows j"
    using ex by (intro exI [of _ 10]) (simp add: big_rows_def)
  have "snd (execute ?w ''e'' ''k'' ''p'' ''rum'' None None) = Resolved True (take 10 big_rows)"
    using conjunct1 [OF execute_truncated_iff_estimate_crossed [OF h1 h2]] some least by simp
  with h1 h2 show ?thesis by simp
qed

theorem execute_samples_counterexample:
  "snd (execute (example_world example_files (big_rows, End))
          ''e'' ''k'' ''p'' ''rum'' None None) = Resolved True (take 10 big_rows)
   \<and> samples (feed (json_size (example_world example_files (big_rows, End))) big_rows
                 \<lparr>results = [], avgsize = 0, samples = 0, promise = None\<rparr>) = 2"
proof -
  let ?f = "\<lambda>rows :: nat list. real (sum_list rows)"
  have least: "\<forall>j<10. \<not> estimate_exceeds ?f big_rows j"
    by (simp add: estimate_exceeds_def)
  have len: "10 < length big_rows" by (simp add: big_rows_def)
  have fd: "feed ?f big_rows \<lparr>results = [], avgsize = 0, samples = 0, promise = None\<rparr> =
     \<lparr>results = take 10 big_rows, avgsize = ?f (take 10 big_rows) / 10,
      samples = (if (10::nat) = 10 then length big_rows - 10 else 1),
      promise = Some (Resolve True)\<rparr>"
    using len big_rows_crossing least by (rule feed_crossing)
  have "consume ?f (big_rows, End) = Resolved True (take 10 big_rows)"
    using len big_rows_crossing least by (rule consume_crossing)
  then have "snd (execute (example_world example_files (big_rows, End))
          ''e'' ''k'' ''p'' ''rum'' None None) = Resolved True (take 10 big_rows)"
    by (simp add: execute_def example_world_def loadQuery_def example_files_rum query_path_rum
        Let_def)
  moreover have "samples (feed ?f big_rows
      \<lparr>results = [], avgsize = 0, samples = 0, promise = None\<rparr>) = 2"
    unfolding fd by (simp add: big_rows_def)
  ultimately show ?thesis by (simp add: example_world_def)
qed

text \<open>
  Claim C9. A stream that ends after at most ten rows resolves with \<open>truncated = false\<close>
  and all its rows, whatever the size function says; and in every resolved result the
  first ten rows received are there: a truncated result holds at least ten rows.
\<close>

theorem execute_accepts_first_ten_rows:
  assumes "CreateQueryStream sql m p
             \<in> set (fst (execute w email key project query service params))"
    and "query_stream w sql m p = (rows, t)"
  shows "(t = End \<and> length rows \<le> 10 \<longrightarrow>
            snd (execute w email key project query service params) = Resolved False rows)
         \<and> (\<forall>b rs. snd (execute w email key project query service params) = Resolved b rs \<longrightarrow>
               take 10 rs = take 10 rows \<and> (b \<longrightarrow> 10 \<le> length rs \<and> length rs < length rows))"
proof -
  have out: "snd (execute w email key project query service params) =
               consume (json_size w) (rows, t)"
    by (simp only: execute_submitted [OF assms(1)] assms(2))
  show ?thesis
  proof (cases "\<exists>j<length rows. estimate_exceeds (json_size w) rows j")
    case True
    define n where "n = (LEAST j. estimate_exceeds (json_size w) rows j)"
    have n: "n < length rows" "estimate_exceeds (json_size w) rows n"
      unfolding n_def by (rule least_crossing(1) [OF True], rule least_crossing(2) [OF True])
    have n10: "10 \<le> n" using n(2) by (simp add: estimate_exceeds_def)
    have "consume (json_size w) (rows, t) = Resolved True (take n rows)"
      unfolding n_def using least_crossing [OF True] by (rule consume_crossing)
    then have res: "snd (execute w email key project query service params) =
                      Resolved True (take n rows)"
      using out by simp
    have long: "\<not> length rows \<le> 10" using n(1) n10 by simp
    have t10: "take 10 (take n rows) = take 10 rows" using n10 by (simp add: min_def)
    have len: "length (take n rows) = n" using n(1) by simp
    have A: "t = End \<and> length rows \<le> 10 \<longrightarrow>
               Resolved True (take n rows) = Resolved False rows"
      using long by (simp only: simp_thms)
    have B: "\<forall>b rs. Resolved True (take n rows) = Resolved b rs \<longrightarrow>
               take 10 rs = take 10 rows \<and> (b \<longrightarrow> 10 \<le> length rs \<and> length rs < length rows)"
    proof (intro allI impI)
      fix b rs
      assume "Resolved True (take n rows) = Resolved b rs"
      then have rs: "rs = take n rows" by (simp only: outcome.inject)
      show "take 10 rs = take 10 rows \<and> (b \<longrightarrow> 10 \<le> length rs \<and> length rs < length rows)"
        by (simp only: rs t10 len n10 n(1) simp_thms)
    qed
    show ?thesis
      unfolding res using A B by (rule conjI)
  next
    case False
    then have "\<forall>j<length rows. \<not> estimate_exceeds (json_size w) rows j" by simp
    then have "consume (json_size w) (rows, t) =
       (case t of End \<Rightarrow> Resolved False rows | Error e \<Rightarrow> Rejected (StreamError e))"
      by (rule consume_no_crossing)
    then have res: "snd (execute w email key project query service params) =
       (case t of End \<Rightarrow> Resolved False rows | Error e \<Rightarrow> Rejected (StreamError e))"
      using out by simp
    show ?thesis
    proof (cases t)
      case End
      show ?thesis unfolding res End by simp
    next
      case (Error e)
      show ?thesis unfolding res Error by simp
    qed
  qed
qed


theorem execute_accepts_first_ten_rows_witness:
  "CreateQueryStream example_template (Num 100) [(''limit'', Num 100)]
     \<in> set (fst (execute (example_world example_files (small_rows, End))
                  ''e'' ''k'' ''p'' ''rum'' None None))
   \<and> query_stream (example_world example_files (small_rows, End))
        example_template (Num 100) [(''limit'', Num 100)] = (small_rows, End)
   \<and> length small_rows \<le> 10
   \<and> snd (execute (example_world example_files (small_rows, End))
            ''e'' ''k'' ''p'' ''rum'' None None) = Resolved False small_rows"
proof -
  let ?w = "example_world example_files (small_rows, End)"
  have h1: "CreateQueryStream example_template (Num 100) [(''limit'', Num 100)]
     \<in> set (fst (execute ?w ''e'' ''k'' ''p'' ''rum'' None None))"
    by (simp add: execute_example_calls)
  have h2: "query_stream ?w example_template (Num 100) [(''limit'', Num 100)] = (small_rows, End)"
    by (simp add: example_world_def)
  have h3: "length small_rows \<le> 10" by (simp add: small_rows_def)
  have "snd (execute ?w ''e'' ''k'' ''p'' ''rum'' None None) = Resolved False small_rows"
    using conjunct1 [OF execute_accepts_first_ten_rows [OF h1 h2]] h3 by simp
  with h1 h2 h3 show ?thesis by simp
qed

section \<open>What execute calls, and with what\<close>

lemma execute_success:
  assumes "auth w email key = Inr c"
    and "dataset_get w project c (dataset_name service) = Inr d"
    and "files w (query_path query) = Some template"
  shows "execute w email key project query service params_arg =
     ([Auth email key, DatasetGet project (dataset_name service), ReadFile (query_path query),
       CreateQueryStream template (parseInt w (js_get (params_or_default params_arg) ''limit''))
         (params_or_default params_arg)],
      consume (json_size w)
        (query_stream w template (parseInt w (js_get (params_or_default params_arg) ''limit''))
           (params_or_default params_arg)))"
  using assms by (simp add: execute_def Let_def loadQuery_def)

lemma execute_missing_file:
  assumes "auth w email key = Inr c"
    and "dataset_get w project c (dataset_name service) = Inr d"
    and "files w (query_path query) = None"
  shows "execute w email key project query service params_arg =
     ([Auth email key, DatasetGet project (dataset_name service), ReadFile (query_path query)],
      Rejected (ReadError (read_error w (query_path query)) (query_path query)))"
  using assms by (simp add: execute_def Let_def loadQuery_def)

lemma execute_auth_failure:
  assumes "auth w email key = Inl msg"
  shows "execute w email key project query service params_arg =
     ([Auth email key], Rejected (ExecuteError (''Unable to execute Google Query: '' @ msg)))"
  using assms by (simp add: execute_def Let_def)

lemma execute_dataset_failure:
  assumes "auth w email key = Inr c"
    and "dataset_get w project c (dataset_name service) = Inl msg"
  shows "execute w email key project query service params_arg =
     ([Auth email key, DatasetGet project (dataset_name service)],
      Rejected (ExecuteError (''Unable to execute Google Query: '' @ msg)))"
  using assms by (simp add: execute_def Let_def)

lemma execute_cases:
  obtains (auth_failure) msg where "auth w email key = Inl msg"
  | (dataset_failure) c msg where "auth w email key = Inr c"
      "dataset_get w project c (dataset_name service) = Inl msg"
  | (missing_file) c d where "auth w email key = Inr c"
      "dataset_get w project c (dataset_name service) = Inr d"
      "files w (query_path query) = None"
  | (success) c d template where "auth w email key = Inr c"
      "dataset_get w project c (dataset_name service) = Inr d"
      "files w (query_path query) = Some template"
proof (cases "auth w email key")
  case (Inl msg)
  then show ?thesis by (rule auth_failure)
next
  case (Inr c)
  show ?thesis
  proof (cases "dataset_get w project c (dataset_name service)")
    case (Inl msg)
    with Inr show ?thesis by (rule dataset_failure)
  next
    case d: (Inr d)
    show ?thesis
    proof (cases "files w (query_path query)")
      case None
      with Inr d show ?thesis by (rule missing_file)
    next
      case (Some template)
      with Inr d show ?thesis by (rule success)
    qed
  qed
qed

lemma submitted_sql_execute:
  "submitted_sql (fst (execute w email key project query service params_arg)) =
     (case loadQuery (files w) (read_error w) query of
        Inl e \<Rightarrow> []
      | Inr template \<Rightarrow>
          (case auth w email key of
             Inl msg \<Rightarrow> []
           | Inr c \<Rightarrow>
               (case dataset_get w project c (dataset_name service) of
                  Inl msg \<Rightarrow> []
                | Inr d \<Rightarrow> [template])))"
  by (simp add: execute_def Let_def split: sum.splits)

lemma example_world_simps:
  "auth (example_world fs st) email key = Inr ''token''"
  "dataset_get (example_world fs st) project c name = Inr ()"
  "files (example_world fs st) = fs"
  "query_stream (example_world fs st) sql m p = st"
  "read_error (example_world fs st) path = ENOENT"
  "parseInt (example_world fs st) = example_parseInt"
  "json_size (example_world fs st) = (\<lambda>rows. real (sum_list rows))"
  by (simp_all add: example_world_def)

text \<open>
  Claim C4, as the code has it. For a query name whose template cannot be read, nothing is
  submitted to the warehouse as a query; but \<open>execute\<close> acquires credentials and looks up
  the dataset before it loads the template. When the credential provider fails, or the
  dataset lookup fails, the rejection is that step's \<open>Unable to execute Google Query\<close>
  error and the template is not read. When both succeed, the rejection is the error that
  the read throws for the template path, as it is: the not-found error when nothing is
  there to read.
\<close>

theorem execute_unknown_query_submits_nothing:
  assumes "files w (query_path query) = None"
  shows "submitted_sql (fst (execute w email key project query service params_arg)) = []
         \<and> (\<forall>msg. auth w email key = Inl msg \<longrightarrow>
               execute w email key project query service params_arg =
                 ([Auth email key],
                  Rejected (ExecuteError (''Unable to execute Google Query: '' @ msg))))
         \<and> (\<forall>c msg. auth w email key = Inr c
                   \<and> dataset_get w project c (dataset_name service) = Inl msg \<longrightarrow>
               execute w email key project query service params_arg =
                 ([Auth email key, DatasetGet project (dataset_name service)],
                  Rejected (ExecuteError (''Unable to execute Google Query: '' @ msg))))
         \<and> (\<forall>c d. auth w email key = Inr c
                   \<and> dataset_get w project c (dataset_name service) = Inr d \<longrightarrow>
               execute w email key project query service params_arg =
                 ([Auth email key, DatasetGet project (dataset_name service),
                   ReadFile (query_path query)],
                  Rejected (ReadError (read_error w (query_path query)) (query_path query)))
               \<and> (read_error w (query_path query) = ENOENT \<longrightarrow>
                    snd (execute w email key project query service params_arg) =
                      Rejected (ReadError ENOENT (query_path query))))"
proof (intro conjI allI impI)
  show "submitted_sql (fst (execute w email key project query service params_arg)) = []"
    using assms by (simp add: submitted_sql_execute loadQuery_def)
next
  fix msg assume "auth w email key = Inl msg"
  then show "execute w email key project query service params_arg =
                 ([Auth email key],
                  Rejected (ExecuteError (''Unable to execute Google Query: '' @ msg)))"
    by (rule execute_auth_failure)
next
  fix c msg
  assume "auth w email key = Inr c \<and> dataset_get w project c (dataset_name service) = Inl msg"
  then show "execute w email key project query service params_arg =
                 ([Auth email key, DatasetGet project (dataset_name service)],
                  Rejected (ExecuteError (''Unable to execute Google Query: '' @ msg)))"
    by (simp add: execute_dataset_failure)
next
  fix c d
  assume h: "auth w email key = Inr c \<and> dataset_get w project c (dataset_name service) = Inr d"
  then show e: "execute w email key project query service params_arg =
                 ([Auth email key, DatasetGet project (dataset_name service),
                   ReadFile (query_path query)],
                  Rejected (ReadError (read_error w (query_path query)) (query_path query)))"
    using assms by (simp add: execute_missing_file)
  assume "read_error w (query_path query) = ENOENT"
  then show "snd (execute w email key project query service params_arg) =
                      Rejected (ReadError ENOENT (query_path query))"
    by (simp add: e)
qed

lemma refusing_world_simps:
  "auth (refusing_world fs st) email key = Inl ''invalid_grant''"
  "files (refusing_world fs st) = fs"
  by (simp_all add: refusing_world_def example_world_def)

lemma datasetless_world_simps:
  "auth (datasetless_world fs st) email key = Inr ''token''"
  "dataset_get (datasetless_world fs st) project c name = Inl ''Not found: Dataset''"
  "files (datasetless_world fs st) = fs"
  by (simp_all add: datasetless_world_def example_world_def)

theorem execute_unknown_query_submits_nothing_witness:
  "files (example_world example_files (small_rows, End)) (query_path ''nope'') = None
   \<and> submitted_sql (fst (execute (example_world example_files (small_rows, End))
                           ''e'' ''k'' ''p'' ''nope'' None None)) = []
   \<and> execute (example_world example_files (small_rows, End)) ''e'' ''k'' ''p'' ''nope'' None None =
       ([Auth ''e'' ''k'', DatasetGet ''p'' ''helix_logging_undefined'',
         ReadFile ''queries/nope.sql''],
        Rejected (ReadError ENOENT ''queries/nope.sql''))
   \<and> execute (refusing_world example_files (small_rows, End)) ''e'' ''k'' ''p'' ''nope'' None None =
       ([Auth ''e'' ''k''],
        Rejected (ExecuteError ''Unable to execute Google Query: invalid_grant''))
   \<and> execute (datasetless_world example_files (small_rows, End)) ''e'' ''k'' ''p'' ''nope''
        None None =
       ([Auth ''e'' ''k'', DatasetGet ''p'' ''helix_logging_undefined''],
        Rejected (ExecuteError ''Unable to execute Google Query: Not found: Dataset''))"
proof -
  let ?w = "example_world example_files (small_rows, End)"
  let ?r = "refusing_world example_files (small_rows, End)"
  let ?d = "datasetless_world example_files (small_rows, End)"
  have h: "files ?w (query_path ''nope'') = None"
    by (simp add: example_world_simps example_files_nope)
  have hr: "files ?r (query_path ''nope'') = None"
    by (simp add: refusing_world_simps example_files_nope)
  have hd: "files ?d (query_path ''nope'') = None"
    by (simp add: datasetless_world_simps example_files_nope)
  have a: "auth ?w ''e'' ''k'' = Inr ''token''"
    and d: "dataset_get ?w ''p'' ''token'' (dataset_name None) = Inr ()"
    by (simp_all add: example_world_simps)
  have ar: "auth ?r ''e'' ''k'' = Inl ''invalid_grant''"
    by (simp add: refusing_world_simps)
  have ad: "auth ?d ''e'' ''k'' = Inr ''token''"
    and dd: "dataset_get ?d ''p'' ''token'' (dataset_name None) = Inl ''Not found: Dataset''"
    by (simp_all add: datasetless_world_simps)
  note t = execute_unknown_query_submits_nothing [OF h, of "''e''" "''k''" "''p''" None None]
  note tr = execute_unknown_query_submits_nothing [OF hr, of "''e''" "''k''" "''p''" None None]
  note td = execute_unknown_query_submits_nothing [OF hd, of "''e''" "''k''" "''p''" None None]
  have 1: "execute ?w ''e'' ''k'' ''p'' ''nope'' None None =
       ([Auth ''e'' ''k'', DatasetGet ''p'' (dataset_name None), ReadFile (query_path ''nope'')],
        Rejected (ReadError (read_error ?w (query_path ''nope'')) (query_path ''nope'')))"
    using conjunct2 [OF conjunct2 [OF conjunct2 [OF t]]] a d by blast
  have 2: "execute ?r ''e'' ''k'' ''p'' ''nope'' None None =
       ([Auth ''e'' ''k''],
        Rejected (ExecuteError (''Unable to execute Google Query: '' @ ''invalid_grant'')))"
    using conjunct1 [OF conjunct2 [OF tr]] ar by blast
  have 3: "execute ?d ''e'' ''k'' ''p'' ''nope'' None None =
       ([Auth ''e'' ''k'', DatasetGet ''p'' (dataset_name None)],
        Rejected (ExecuteError (''Unable to execute Google Query: '' @ ''Not found: Dataset'')))"
    using conjunct1 [OF conjunct2 [OF conjunct2 [OF td]]] ad dd by blast
  show ?thesis
    using h conjunct1 [OF t]
    by (simp add: 1 2 3 dataset_name_def query_path_def example_world_simps)
qed

theorem execute_unknown_query_counterexample:
  "files (example_world example_files (small_rows, End)) (query_path ''nope'') = None
   \<and> fst (execute (example_world example_files (small_rows, End))
             ''e'' ''k'' ''p'' ''nope'' None None) =
       [Auth ''e'' ''k'', DatasetGet ''p'' ''helix_logging_undefined'',
        ReadFile ''queries/nope.sql'']
   \<and> warehouse_call (Auth ''e'' ''k'')
   \<and> warehouse_call (DatasetGet ''p'' ''helix_logging_undefined'')"
proof -
  let ?w = "example_world example_files (small_rows, End)"
  have h: "files ?w (query_path ''nope'') = None"
    by (simp add: example_world_simps example_files_nope)
  have "execute ?w ''e'' ''k'' ''p'' ''nope'' None None =
       ([Auth ''e'' ''k'', DatasetGet ''p'' (dataset_name None), ReadFile (query_path ''nope'')],
        Rejected (ReadError (read_error ?w (query_path ''nope'')) (query_path ''nope'')))"
    using h by (intro execute_missing_file) (simp_all add: example_world_simps)
  then show ?thesis
    using h by (simp add: dataset_name_def query_path_def)
qed

lemma execute_example:
  "execute (example_world example_files st) ''e'' ''k'' ''p'' ''rum'' None params_arg =
     ([Auth ''e'' ''k'', DatasetGet ''p'' ''helix_logging_undefined'', ReadFile ''queries/rum.sql'',
       CreateQueryStream example_template
         (example_parseInt (js_get (params_or_default params_arg) ''limit''))
         (params_or_default params_arg)],
      consume (\<lambda>rows. real (sum_list rows)) st)"
proof -
  have "execute (example_world example_files st) ''e'' ''k'' ''p'' ''rum'' None params_arg =
     ([Auth ''e'' ''k'', DatasetGet ''p'' (dataset_name None), ReadFile (query_path ''rum''),
       CreateQueryStream example_template
         (parseInt (example_world example_files st)
            (js_get (params_or_default params_arg) ''limit''))
         (params_or_default params_arg)],
      consume (json_size (example_world example_files st))
        (query_stream (example_world example_files st) example_template
           (parseInt (example_world example_files st)
              (js_get (params_or_default params_arg) ''limit''))
           (params_or_default params_arg)))"
    by (intro execute_success)
       (simp_all add: example_world_simps query_path_rum example_files_rum)
  then show ?thesis
    by (simp add: example_world_simps dataset_name_def query_path_rum)
qed

lemma consume_small_rows:
  "consume (\<lambda>rows. real (sum_list rows)) (small_rows, End) = Resolved False small_rows"
proof -
  have "\<forall>j<length small_rows. \<not> estimate_exceeds (\<lambda>rows. real (sum_list rows)) small_rows j"
    by (simp add: small_rows_def estimate_exceeds_def)
  then show ?thesis by (simp add: consume_no_crossing)
qed

lemma submitted_params_execute:
  "submitted_params (fst (execute w email key project query service params_arg)) =
     map (\<lambda>sql. params_or_default params_arg)
       (submitted_sql (fst (execute w email key project query service params_arg)))"
  by (simp add: execute_def Let_def split: sum.splits)

text \<open>
  Claim C6. For every query name and every two caller parameter maps, the SQL text
  submitted to the warehouse is the same, and whatever is submitted is exactly the
  template text that \<open>loadQuery\<close> returned. The caller's parameter values travel out of
  band: each submitted text goes with the \<open>params\<close> option, which is the caller's map
  itself (or \<open>{limit: 100}\<close> when the caller passed none).
\<close>

theorem execute_sql_independent_of_params:
  "submitted_sql (fst (execute w email key project query service params1)) =
     submitted_sql (fst (execute w email key project query service params2))
   \<and> (\<forall>sql \<in> set (submitted_sql (fst (execute w email key project query service params1))).
         loadQuery (files w) (read_error w) query = Inr sql)
   \<and> submitted_params (fst (execute w email key project query service params1)) =
       map (\<lambda>sql. params_or_default params1)
         (submitted_sql (fst (execute w email key project query service params1)))
   \<and> submitted_params (fst (execute w email key project query service params2)) =
       map (\<lambda>sql. params_or_default params2)
         (submitted_sql (fst (execute w email key project query service params2)))"
  by (simp add: submitted_sql_execute submitted_params_execute split: sum.splits)

theorem execute_sql_independent_of_params_witness:
  "submitted_sql (fst (execute (example_world example_files (small_rows, End)) ''e'' ''k'' ''p''
      ''rum'' None (Some [(''url'', Str ''x; DROP TABLE t'')]))) = [example_template]
   \<and> submitted_sql (fst (execute (example_world example_files (small_rows, End)) ''e'' ''k'' ''p''
      ''rum'' None None)) = [example_template]
   \<and> loadQuery (files (example_world example_files (small_rows, End)))
        (read_error (example_world example_files (small_rows, End))) ''rum''
       = Inr example_template
   \<and> submitted_params (fst (execute (example_world example_files (small_rows, End)) ''e'' ''k''
        ''p'' ''rum'' None (Some [(''url'', Str ''x; DROP TABLE t'')]))) =
       [[(''url'', Str ''x; DROP TABLE t'')]]
   \<and> submitted_params (fst (execute (example_world example_files (small_rows, End)) ''e'' ''k''
        ''p'' ''rum'' None None)) = [[(''limit'', Num 100)]]"
proof -
  let ?w = "example_world example_files (small_rows, End)"
  let ?p = "Some [(''url'', Str ''x; DROP TABLE t'')]"
  note t = execute_sql_independent_of_params
    [of ?w "''e''" "''k''" "''p''" "''rum''" None ?p None]
  have one: "submitted_sql (fst (execute ?w ''e'' ''k'' ''p'' ''rum'' None None))
               = [example_template]"
    by (simp add: execute_example)
  have two: "submitted_sql (fst (execute ?w ''e'' ''k'' ''p'' ''rum'' None ?p)) =
        submitted_sql (fst (execute ?w ''e'' ''k'' ''p'' ''rum'' None None))"
    by (rule conjunct1 [OF t])
  have three: "\<forall>sql \<in> set (submitted_sql (fst (execute ?w ''e'' ''k'' ''p'' ''rum'' None ?p))).
         loadQuery (files ?w) (read_error ?w) ''rum'' = Inr sql"
    by (rule conjunct1 [OF conjunct2 [OF t]])
  have four: "submitted_params (fst (execute ?w ''e'' ''k'' ''p'' ''rum'' None ?p)) =
       map (\<lambda>sql. params_or_default ?p)
         (submitted_sql (fst (execute ?w ''e'' ''k'' ''p'' ''rum'' None ?p)))"
    by (rule conjunct1 [OF conjunct2 [OF conjunct2 [OF t]]])
  have five: "submitted_params (fst (execute ?w ''e'' ''k'' ''p'' ''rum'' None None)) =
       map (\<lambda>sql. params_or_default None)
         (submitted_sql (fst (execute ?w ''e'' ''k'' ''p'' ''rum'' None None)))"
    by (rule conjunct2 [OF conjunct2 [OF conjunct2 [OF t]]])
  have six: "loadQuery (files ?w) (read_error ?w) ''rum'' = Inr example_template"
    using three by (simp add: two one)
  show ?thesis
    using six by (simp add: four five two one params_or_default_def)
qed

text \<open>
  Claim C3, as the code has it. \<open>execute\<close> binds nothing: it never reads the template's
  header, and when the query is submitted the parameter map sent with it is the caller's
  map as it came (or \<open>{limit: 100}\<close> when the caller passed none). A declared parameter
  that the caller left out stays out, and no error is raised for it: the outcome is the
  stream's outcome.
\<close>

theorem execute_passes_params_unbound:
  assumes "auth w email key = Inr c"
    and "dataset_get w project c (dataset_name service) = Inr d"
    and "files w (query_path query) = Some template"
  shows "submitted_params (fst (execute w email key project query service params_arg)) =
           [params_or_default params_arg]
         \<and> snd (execute w email key project query service params_arg) =
             consume (json_size w)
               (query_stream w template
                  (parseInt w (js_get (params_or_default params_arg) ''limit''))
                  (params_or_default params_arg))"
  by (simp add: execute_success [OF assms])

theorem execute_passes_params_unbound_witness:
  "auth (example_world example_files (small_rows, End)) ''e'' ''k'' = Inr ''token''
   \<and> dataset_get (example_world example_files (small_rows, End)) ''p'' ''token''
        (dataset_name None) = Inr ()
   \<and> files (example_world example_files (small_rows, End)) (query_path ''rum'')
        = Some example_template
   \<and> submitted_params (fst (execute (example_world example_files (small_rows, End))
        ''e'' ''k'' ''p'' ''rum'' None (Some [(''limit'', Num 5)]))) = [[(''limit'', Num 5)]]"
proof -
  let ?w = "example_world example_files (small_rows, End)"
  have a: "auth ?w ''e'' ''k'' = Inr ''token''"
    and d: "dataset_get ?w ''p'' ''token'' (dataset_name None) = Inr ()"
    and f: "files ?w (query_path ''rum'') = Some example_template"
    by (simp_all add: example_world_simps query_path_rum example_files_rum)
  have "submitted_params (fst (execute ?w ''e'' ''k'' ''p'' ''rum'' None
          (Some [(''limit'', Num 5)]))) = [params_or_default (Some [(''limit'', Num 5)])]"
    by (rule conjunct1 [OF execute_passes_params_unbound [OF a d f]])
  then show ?thesis using a d f by (simp add: params_or_default_def)
qed

theorem execute_binding_counterexample:
  "getExtraParameters example_template =
     [(''url'', Str ''-''), (''limit'', Str ''100''), (''within'', Str '''')]
   \<and> execute (example_world example_files (small_rows, End)) ''e'' ''k'' ''p'' ''rum'' None
        (Some [(''limit'', Num 5)]) =
       ([Auth ''e'' ''k'', DatasetGet ''p'' ''helix_logging_undefined'',
         ReadFile ''queries/rum.sql'',
         CreateQueryStream example_template (Num 5) [(''limit'', Num 5)]],
        Resolved False small_rows)"
proof -
  have "getExtraParameters example_template =
     [(''url'', Str ''-''), (''limit'', Str ''100''), (''within'', Str '''')]"
    by (simp add: getExtraParameters_def example_template_def NL_def startsWith_def indexOf_def
        js_index_def property_key_def js_assign_def js_define_def is_array_index_def is_digit_def)
  then show ?thesis
    by (simp add: execute_example consume_small_rows params_or_default_def js_get_def
        example_parseInt_values)
qed

lemma has_metadata_sentinel_example: "has_metadata_sentinel example_template"
  by (simp add: has_metadata_sentinel_def example_template_def NL_def)

text \<open>
  Claim C7, as the code has it. \<open>execute\<close> never splits a template: it submits at most one
  statement text per call, and when it submits, that text is the whole loaded template,
  sentinel line and metadata statement included when the template has them. No second,
  metadata query is issued.
\<close>

theorem execute_submits_whole_template:
  "length (submitted_sql (fst (execute w email key project query service params_arg))) \<le> 1
   \<and> (\<forall>c d template. auth w email key = Inr c
          \<and> dataset_get w project c (dataset_name service) = Inr d
          \<and> files w (query_path query) = Some template \<longrightarrow>
        submitted_sql (fst (execute w email key project query service params_arg)) = [template]
        \<and> map has_metadata_sentinel
              (submitted_sql (fst (execute w email key project query service params_arg)))
            = [has_metadata_sentinel template])"
  by (simp add: submitted_sql_execute loadQuery_def split: sum.splits option.splits)

theorem execute_submits_whole_template_witness:
  "auth (example_world example_files (small_rows, End)) ''e'' ''k'' = Inr ''token''
   \<and> dataset_get (example_world example_files (small_rows, End)) ''p'' ''token''
        (dataset_name None) = Inr ()
   \<and> files (example_world example_files (small_rows, End)) (query_path ''rum'')
        = Some example_template
   \<and> submitted_sql (fst (execute (example_world example_files (small_rows, End))
        ''e'' ''k'' ''p'' ''rum'' None None)) = [example_template]"
proof -
  let ?w = "example_world example_files (small_rows, End)"
  have a: "auth ?w ''e'' ''k'' = Inr ''token''"
    and d: "dataset_get ?w ''p'' ''token'' (dataset_name None) = Inr ()"
    and f: "files ?w (query_path ''rum'') = Some example_template"
    by (simp_all add: example_world_simps query_path_rum example_files_rum)
  have "submitted_sql (fst (execute ?w ''e'' ''k'' ''p'' ''rum'' None None)) = [example_template]"
    using conjunct2 [OF execute_submits_whole_template
        [of ?w "''e''" "''k''" "''p''" "''rum''" None None]] a d f
    by blast
  then show ?thesis using a d f by simp
qed

theorem execute_metadata_split_counterexample:
  "has_metadata_sentinel example_template
   \<and> submitted_sql (fst (execute (example_world example_files (small_rows, End))
        ''e'' ''k'' ''p'' ''rum'' None None)) = [example_template]"
  by (simp add: has_metadata_sentinel_example execute_example)

text \<open>
  Claim C8, as the code has it. The only coercion is the call \<open>parseInt(params.limit, 10)\<close>,
  and its result goes to the \<open>maxResults\<close> option alone: whenever a query is submitted,
  \<open>maxResults\<close> is what \<open>parseInt\<close> returns for the caller's \<open>limit\<close>, and the parameter map
  sent is the caller's map itself, so \<open>limit\<close> and \<open>offset\<close> reach the warehouse in \<open>params\<close>
  as the caller gave them.
\<close>

theorem execute_parses_limit_for_maxResults_only:
  assumes "CreateQueryStream sql m p
             \<in> set (fst (execute w email key project query service params_arg))"
  shows "m = parseInt w (js_get (params_or_default params_arg) ''limit'')
         \<and> p = params_or_default params_arg
         \<and> js_get p ''limit'' = js_get (params_or_default params_arg) ''limit''
         \<and> js_get p ''offset'' = js_get (params_or_default params_arg) ''offset''
         \<and> submitted_maxResults (fst (execute w email key project query service params_arg)) =
             [parseInt w (js_get (params_or_default params_arg) ''limit'')]
         \<and> submitted_params (fst (execute w email key project query service params_arg)) =
             [params_or_default params_arg]"
  using assms by (auto simp: execute_def Let_def split: sum.splits)

theorem execute_parses_limit_for_maxResults_only_witness:
  "CreateQueryStream example_template (Num 10) [(''limit'', Str ''10''), (''offset'', Str ''5'')]
     \<in> set (fst (execute (example_world example_files (small_rows, End)) ''e'' ''k'' ''p'' ''rum''
                  None (Some [(''limit'', Str ''10''), (''offset'', Str ''5'')])))
   \<and> Num 10 = parseInt (example_world example_files (small_rows, End))
                 (js_get [(''limit'', Str ''10''), (''offset'', Str ''5'')] ''limit'')
   \<and> js_get [(''limit'', Str ''10''), (''offset'', Str ''5'')] ''offset'' = Str ''5''"
proof -
  let ?w = "example_world example_files (small_rows, End)"
  let ?p = "[(''limit'', Str ''10''), (''offset'', Str ''5'')]"
  have pi: "example_parseInt (js_get ?p ''limit'') = Num 10"
    by (simp add: js_get_def example_parseInt_values)
  have h: "CreateQueryStream example_template (Num 10) ?p
     \<in> set (fst (execute ?w ''e'' ''k'' ''p'' ''rum'' None (Some ?p)))"
    by (simp add: execute_example params_or_default_def pi)
  have "Num 10 = parseInt ?w (js_get (params_or_default (Some ?p)) ''limit'')"
    by (rule conjunct1 [OF execute_parses_limit_for_maxResults_only [OF h]])
  then show ?thesis using h by (simp add: params_or_default_def js_get_def)
qed

theorem execute_coercion_counterexample:
  "submitted_params (fst (execute (example_world example_files (small_rows, End)) ''e'' ''k''
      ''p'' ''rum'' None (Some [(''limit'', Str ''10''), (''offset'', Str ''5'')]))) =
     [[(''limit'', Str ''10''), (''offset'', Str ''5'')]]
   \<and> submitted_maxResults (fst (execute (example_world example_files (small_rows, End)) ''e''
        ''k'' ''p'' ''rum'' None (Some [(''limit'', Str ''10''), (''offset'', Str ''5'')]))) =
     [Num 10]"
proof -
  have pi: "example_parseInt (js_get [(''limit'', Str ''10''), (''offset'', Str ''5'')] ''limit'')
              = Num 10"
    by (simp add: js_get_def example_parseInt_values)
  show ?thesis
    by (simp add: execute_example params_or_default_def pi)
qed

section \<open>Splitting\<close>

lemma split_sep_not_Nil: "split_sep sep s \<noteq> []"
  by (induction sep s rule: split_sep.induct) (auto split: list.splits)

lemma split_sep_char_append:
  "split_sep [c] (a @ c # b) = split_sep [c] a @ split_sep [c] b"
proof (induction a)
  case Nil
  show ?case by simp
next
  case (Cons x a)
  show ?case
  proof (cases "x = c")
    case True
    then show ?thesis using Cons by simp
  next
    case False
    obtain p ps where p: "split_sep [c] a = p # ps"
      using split_sep_not_Nil [of "[c]" a] by (cases "split_sep [c] a") simp_all
    from False show ?thesis
      by (simp add: Cons p)
  qed
qed

lemma split_sep_char_none: "c \<notin> set l \<Longrightarrow> split_sep [c] l = [l]"
  by (induction l) auto


section \<open>Plain objects\<close>

lemma insert_index_keys: "fst ` set (insert_index k v obj) = insert k (fst ` set obj)"
proof (induction obj)
  case Nil
  show ?case by simp
next
  case (Cons kv obj)
  obtain k' v' where kv: "kv = (k', v')" by (cases kv)
  show ?case
  proof (cases "is_array_index k' \<and> decimal_value k' < decimal_value k")
    case True
    then have "insert_index k v (kv # obj) = (k', v') # insert_index k v obj"
      by (simp add: kv)
    then show ?thesis by (simp add: Cons.IH kv insert_commute)
  next
    case False
    then have "insert_index k v (kv # obj) = (k, v) # (k', v') # obj"
      by (auto simp: kv)
    then show ?thesis by (simp add: kv)
  qed
qed

lemma insert_index_distinct:
  "k \<notin> fst ` set obj \<Longrightarrow> distinct (map fst obj) \<Longrightarrow>
   distinct (map fst (insert_index k v obj))"
proof (induction obj)
  case Nil
  show ?case by simp
next
  case (Cons kv obj)
  obtain k' v' where kv: "kv = (k', v')" by (cases kv)
  have IH: "distinct (map fst (insert_index k v obj))"
    using Cons by simp
  have fresh: "k' \<notin> fst ` set (insert_index k v obj)"
    using Cons.prems by (auto simp: kv insert_index_keys)
  show ?case
  proof (cases "is_array_index k' \<and> decimal_value k' < decimal_value k")
    case True
    then have "insert_index k v (kv # obj) = (k', v') # insert_index k v obj"
      by (simp add: kv)
    then show ?thesis using IH fresh by simp
  next
    case False
    then have "insert_index k v (kv # obj) = (k, v) # (k', v') # obj"
      by (auto simp: kv)
    then show ?thesis using Cons.prems by (auto simp: kv)
  qed
qed

lemma insert_index_map_of:
  "k \<notin> fst ` set obj \<Longrightarrow> map_of (insert_index k v obj) = (map_of obj)(k \<mapsto> v)"
proof (induction obj)
  case Nil
  show ?case by simp
next
  case (Cons kv obj)
  obtain k' v' where kv: "kv = (k', v')" by (cases kv)
  have ne: "k' \<noteq> k" using Cons.prems by (auto simp: kv)
  have "k \<notin> fst ` set obj" using Cons.prems by simp
  then have IH: "map_of (insert_index k v obj) = (map_of obj)(k \<mapsto> v)"
    by (rule Cons.IH)
  show ?case
  proof (cases "is_array_index k' \<and> decimal_value k' < decimal_value k")
    case True
    then have "map_of (insert_index k v (kv # obj)) = map_of ((k', v') # insert_index k v obj)"
      by (simp add: kv)
    also have "\<dots> = (map_of (kv # obj))(k \<mapsto> v)"
      using ne by (auto simp: IH kv fun_eq_iff)
    finally show ?thesis .
  next
    case False
    then have "map_of (insert_index k v (kv # obj)) = map_of ((k, v) # (k', v') # obj)"
      by (auto simp: kv)
    also have "\<dots> = (map_of (kv # obj))(k \<mapsto> v)"
      by (auto simp: kv fun_eq_iff)
    finally show ?thesis .
  qed
qed

lemma overwrite_keys:
  "map fst (map (\<lambda>(k', v'). if k' = k then (k', v) else (k', v')) obj) = map fst obj"
  by (induction obj) auto

lemma overwrite_lookup:
  "map_of (map (\<lambda>(k', v'). if k' = k then (k', v) else (k', v')) obj) x =
     (if x = k \<and> k \<in> fst ` set obj then Some v else map_of obj x)"
proof (induction obj)
  case Nil
  show ?case by simp
next
  case (Cons kv obj)
  obtain k' v' where kv: "kv = (k', v')" by (cases kv)
  show ?case
  proof (cases "k' = k")
    case True
    then show ?thesis using Cons.IH by (auto simp: kv)
  next
    case False
    then show ?thesis using Cons.IH by (force simp: kv)
  qed
qed

lemma overwrite_map_of:
  "k \<in> fst ` set obj \<Longrightarrow>
   map_of (map (\<lambda>(k', v'). if k' = k then (k', v) else (k', v')) obj) = (map_of obj)(k \<mapsto> v)"
  by (rule ext) (simp add: overwrite_lookup)

lemma js_define_keys: "fst ` set (js_define obj k v) = insert k (fst ` set obj)"
proof (cases "k \<in> fst ` set obj")
  case True
  have "fst ` set (map (\<lambda>(k', v'). if k' = k then (k', v) else (k', v')) obj)
          = set (map fst (map (\<lambda>(k', v'). if k' = k then (k', v) else (k', v')) obj))"
    by (simp only: set_map)
  also have "\<dots> = fst ` set obj"
    by (simp only: overwrite_keys set_map)
  finally show ?thesis using True by (simp add: js_define_def insert_absorb)
next
  case False
  then show ?thesis by (simp add: js_define_def insert_index_keys)
qed

lemma js_define_distinct:
  "distinct (map fst obj) \<Longrightarrow> distinct (map fst (js_define obj k v))"
proof (cases "k \<in> fst ` set obj")
  case True
  assume "distinct (map fst obj)"
  then have "distinct (map fst (map (\<lambda>(k', v'). if k' = k then (k', v) else (k', v')) obj))"
    by (simp only: overwrite_keys)
  then show ?thesis using True by (simp only: js_define_def if_True)
next
  case False
  assume "distinct (map fst obj)"
  then show ?thesis using False by (simp add: js_define_def insert_index_distinct)
qed

lemma append_map_of:
  "k \<notin> fst ` set obj \<Longrightarrow> map_of (obj @ [(k, v)]) = (map_of obj)(k \<mapsto> v)"
  by (induction obj) (auto simp: fun_upd_twist)

lemma js_define_map_of: "map_of (js_define obj k v) = (map_of obj)(k \<mapsto> v)"
proof (cases "k \<in> fst ` set obj")
  case True
  then show ?thesis by (simp only: js_define_def if_True overwrite_map_of)
next
  case False
  show ?thesis
  proof (cases "is_array_index k")
    case True
    have "js_define obj k v = insert_index k v obj"
      using True False by (simp add: js_define_def)
    then show ?thesis by (simp only: insert_index_map_of [OF False])
  next
    case index: False
    have "js_define obj k v = obj @ [(k, v)]"
      using index False by (simp add: js_define_def)
    then show ?thesis by (simp only: append_map_of [OF False])
  qed
qed

lemma js_define_fresh:
  "k \<notin> fst ` set obj \<Longrightarrow> \<not> is_array_index k \<Longrightarrow> js_define obj k v = obj @ [(k, v)]"
  by (simp add: js_define_def)

section \<open>The header parser\<close>

lemma indexOf_positive:
  "startsWith e ''---'' \<Longrightarrow> (indexOf e CHR '':'' > 0) = (CHR '':'' \<in> set e)"
  by (cases e) (auto simp: indexOf_def startsWith_def)

lemma header_filters:
  "filter (\<lambda>e. indexOf e CHR '':'' > 0) (filter (\<lambda>e. startsWith e ''---'') ls) =
     filter is_metadata_line ls"
proof -
  have "filter (\<lambda>e. startsWith e ''---'' \<and> indexOf e CHR '':'' > 0) ls =
          filter is_metadata_line ls"
    by (rule filter_cong) (auto simp: is_metadata_line_def indexOf_positive)
  then show ?thesis by (simp only: filter_filter conj_commute)
qed

lemma getExtraParameters_fold:
  "getExtraParameters query = foldl assign_entry [] (map header_entry (metadata_lines query))"
  unfolding getExtraParameters_def header_filters metadata_lines_def foldl_map
  by (simp add: assign_entry_def header_entry_def header_key_def header_value_def)

lemma fold_assign_keys:
  "fst ` set (foldl assign_entry acc kvs) =
     fst ` set acc \<union> (fst ` set kvs - {''__proto__''})"
proof (induction kvs arbitrary: acc)
  case Nil
  show ?case by simp
next
  case (Cons kv kvs)
  show ?case
    unfolding foldl_Cons Cons.IH
    by (auto simp: assign_entry_def js_assign_def js_define_keys)
qed

lemma fold_assign_distinct:
  "distinct (map fst acc) \<Longrightarrow> distinct (map fst (foldl assign_entry acc kvs))"
proof (induction kvs arbitrary: acc)
  case Nil
  then show ?case by simp
next
  case (Cons kv kvs)
  have "distinct (map fst (assign_entry acc kv))"
    using Cons.prems by (simp add: assign_entry_def js_assign_def js_define_distinct)
  then show ?case by (simp add: Cons.IH)
qed

lemma fold_assign_fresh:
  "distinct (map fst kvs) \<Longrightarrow>
   \<forall>k \<in> fst ` set kvs. k \<noteq> ''__proto__'' \<and> \<not> is_array_index k \<and> k \<notin> fst ` set acc \<Longrightarrow>
   foldl assign_entry acc kvs = acc @ kvs"
proof (induction kvs arbitrary: acc)
  case Nil
  show ?case by simp
next
  case (Cons kv kvs)
  have head: "fst kv \<noteq> ''__proto__''" "\<not> is_array_index (fst kv)" "fst kv \<notin> fst ` set acc"
    using Cons.prems(2) by simp_all
  have step: "assign_entry acc kv = acc @ [kv]"
    using head by (simp add: assign_entry_def js_assign_def js_define_fresh)
  have d: "distinct (map fst kvs)" and nin: "fst kv \<notin> fst ` set kvs"
    using Cons.prems(1) by simp_all
  have rest: "\<forall>k \<in> fst ` set kvs.
      k \<noteq> ''__proto__'' \<and> \<not> is_array_index k \<and> k \<notin> fst ` set (acc @ [kv])"
  proof
    fix k assume k: "k \<in> fst ` set kvs"
    then have "k \<in> fst ` set (kv # kvs)" by simp
    then have "k \<noteq> ''__proto__'' \<and> \<not> is_array_index k \<and> k \<notin> fst ` set acc"
      using Cons.prems(2) by blast
    moreover have "k \<noteq> fst kv" using k nin by blast
    ultimately show "k \<noteq> ''__proto__'' \<and> \<not> is_array_index k \<and> k \<notin> fst ` set (acc @ [kv])"
      by simp
  qed
  have "foldl assign_entry (acc @ [kv]) kvs = (acc @ [kv]) @ kvs"
    using d rest by (rule Cons.IH)
  then show ?case by (simp add: step)
qed


lemma metadata_lines_append:
  "metadata_lines (a @ NL # b) = metadata_lines a @ metadata_lines b"
  by (simp add: metadata_lines_def split_sep_char_append)

lemma metadata_lines_other:
  "\<not> is_metadata_line l \<Longrightarrow> NL \<notin> set l \<Longrightarrow> metadata_lines l = []"
  by (simp add: metadata_lines_def split_sep_char_none)

lemma getExtraParameters_skip_middle:
  assumes "\<not> is_metadata_line l" and "NL \<notin> set l"
  shows "getExtraParameters (a @ [NL] @ l @ [NL] @ b) = getExtraParameters (a @ [NL] @ b)"
proof -
  have "metadata_lines (a @ NL # (l @ NL # b)) = metadata_lines (a @ NL # b)"
    by (simp only: metadata_lines_append metadata_lines_other [OF assms] append_Nil)
  then show ?thesis by (simp add: getExtraParameters_fold)
qed

lemma getExtraParameters_skip_first:
  assumes "\<not> is_metadata_line l" and "NL \<notin> set l"
  shows "getExtraParameters (l @ [NL] @ b) = getExtraParameters b"
proof -
  have "metadata_lines (l @ NL # b) = metadata_lines b"
    by (simp only: metadata_lines_append metadata_lines_other [OF assms] append_Nil)
  then show ?thesis by (simp add: getExtraParameters_fold)
qed

lemma getExtraParameters_skip_last:
  assumes "\<not> is_metadata_line l" and "NL \<notin> set l"
  shows "getExtraParameters (a @ [NL] @ l) = getExtraParameters a"
proof -
  have "metadata_lines (a @ NL # l) = metadata_lines a"
    by (simp only: metadata_lines_append metadata_lines_other [OF assms] append_Nil2)
  then show ?thesis by (simp add: getExtraParameters_fold)
qed

section \<open>The enumeration order of the parsed header\<close>

lemma fold_assign_lookup:
  "k \<noteq> ''__proto__'' \<Longrightarrow>
   map_of (foldl assign_entry acc kvs) k =
     (case map_of (rev kvs) k of None \<Rightarrow> map_of acc k | Some v \<Rightarrow> Some v)"
proof (induction kvs arbitrary: acc)
  case Nil
  show ?case by simp
next
  case (Cons kv kvs)
  have step: "map_of (assign_entry acc kv) k = (if fst kv = k then Some (snd kv) else map_of acc k)"
    using Cons.prems by (auto simp: assign_entry_def js_assign_def js_define_map_of)
  have last: "map_of (rev (kv # kvs)) k =
      (case map_of (rev kvs) k of None \<Rightarrow> (if fst kv = k then Some (snd kv) else None)
       | Some v \<Rightarrow> Some v)"
    by (cases kv) (auto simp: map_add_def split: option.splits)
  have main: "map_of (foldl assign_entry acc (kv # kvs)) k =
      (case map_of (rev kvs) k of None \<Rightarrow> map_of (assign_entry acc kv) k | Some v \<Rightarrow> Some v)"
    using Cons.IH [OF Cons.prems, of "assign_entry acc kv"] by simp
  show ?case
    unfolding main last step by (cases "map_of (rev kvs) k") simp_all
qed

lemma index_first_tail: "index_first (k # ks) \<Longrightarrow> index_first ks"
  by (cases ks) simp_all

lemma index_first_snoc:
  "index_first ks \<Longrightarrow> \<not> is_array_index k \<Longrightarrow> index_first (ks @ [k])"
proof (induction ks rule: index_first.induct)
  case 1
  show ?case by simp
next
  case (2 k1)
  then show ?case by simp
next
  case (3 k1 k2 ks)
  then show ?case by simp
qed

lemma insert_index_head:
  "map fst (insert_index k v obj) \<noteq> []
   \<and> (hd (map fst (insert_index k v obj)) = k
      \<or> (obj \<noteq> [] \<and> hd (map fst (insert_index k v obj)) = hd (map fst obj)
          \<and> is_array_index (hd (map fst obj))
          \<and> decimal_value (hd (map fst obj)) < decimal_value k))"
  by (cases obj) (auto split: if_splits)

lemma index_first_Cons:
  "ks \<noteq> [] \<Longrightarrow>
   index_first (k # ks) \<longleftrightarrow>
     (if is_array_index (hd ks) then is_array_index k \<and> decimal_value k \<le> decimal_value (hd ks)
      else True) \<and> index_first ks"
  by (cases ks) simp_all

lemma index_first_insert:
  "index_first (map fst obj) \<Longrightarrow> is_array_index k \<Longrightarrow>
   index_first (map fst (insert_index k v obj))"
proof (induction obj)
  case Nil
  show ?case by simp
next
  case (Cons kv obj)
  obtain k' v' where kv: "kv = (k', v')" by (cases kv)
  have "index_first (k' # map fst obj)"
    using Cons.prems(1) by (simp add: kv)
  then have tail: "index_first (map fst obj)"
    by (rule index_first_tail)
  have IH: "index_first (map fst (insert_index k v obj))"
    using tail Cons.prems(2) by (rule Cons.IH)
  show ?case
  proof (cases "is_array_index k' \<and> decimal_value k' < decimal_value k")
    case True
    have eq: "map fst (insert_index k v (kv # obj)) = k' # map fst (insert_index k v obj)"
      using True by (simp add: kv)
    have ne: "map fst (insert_index k v obj) \<noteq> []"
      using insert_index_head [of k v obj] by simp
    have "hd (map fst (insert_index k v obj)) = k
      \<or> (obj \<noteq> [] \<and> hd (map fst (insert_index k v obj)) = hd (map fst obj)
          \<and> is_array_index (hd (map fst obj))
          \<and> decimal_value (hd (map fst obj)) < decimal_value k)"
      using insert_index_head [of k v obj] by simp
    then have pair: "(if is_array_index (hd (map fst (insert_index k v obj)))
        then is_array_index k' \<and> decimal_value k' \<le> decimal_value (hd (map fst (insert_index k v obj)))
        else True)"
    proof
      assume "hd (map fst (insert_index k v obj)) = k"
      then show ?thesis using True by simp
    next
      assume h: "obj \<noteq> [] \<and> hd (map fst (insert_index k v obj)) = hd (map fst obj)
          \<and> is_array_index (hd (map fst obj))
          \<and> decimal_value (hd (map fst obj)) < decimal_value k"
      then have "map fst obj \<noteq> []" by simp
      then have "(if is_array_index (hd (map fst obj))
          then is_array_index k' \<and> decimal_value k' \<le> decimal_value (hd (map fst obj))
          else True)"
        using Cons.prems(1) by (simp add: kv index_first_Cons)
      then show ?thesis using h by simp
    qed
    show ?thesis
      unfolding eq using pair IH ne by (simp add: index_first_Cons)
  next
    case False
    have eq: "map fst (insert_index k v (kv # obj)) = k # k' # map fst obj"
      using False by (auto simp: kv)
    have "is_array_index k' \<longrightarrow> decimal_value k \<le> decimal_value k'"
      using False by auto
    then show ?thesis
      unfolding eq using Cons.prems by (simp add: kv)
  qed
qed

lemma index_first_define:
  "index_first (map fst obj) \<Longrightarrow> index_first (map fst (js_define obj k v))"
proof (cases "k \<in> fst ` set obj")
  case True
  assume "index_first (map fst obj)"
  then have "index_first (map fst (map (\<lambda>(k', v'). if k' = k then (k', v) else (k', v')) obj))"
    by (simp only: overwrite_keys)
  then show ?thesis using True by (simp only: js_define_def if_True)
next
  case False
  assume h: "index_first (map fst obj)"
  show ?thesis
  proof (cases "is_array_index k")
    case True
    have "js_define obj k v = insert_index k v obj"
      using True False by (simp add: js_define_def)
    then show ?thesis using h True by (simp add: index_first_insert)
  next
    case index: False
    have "js_define obj k v = obj @ [(k, v)]"
      using index False by (simp add: js_define_def)
    then show ?thesis using h index by (simp add: index_first_snoc)
  qed
qed

lemma fold_assign_index_first:
  "index_first (map fst acc) \<Longrightarrow> index_first (map fst (foldl assign_entry acc kvs))"
proof (induction kvs arbitrary: acc)
  case Nil
  then show ?case by simp
next
  case (Cons kv kvs)
  have "index_first (map fst (assign_entry acc kv))"
    using Cons.prems by (simp add: assign_entry_def js_assign_def index_first_define)
  then show ?case by (simp add: Cons.IH)
qed

lemma insert_index_others:
  "is_array_index k \<Longrightarrow>
   filter (\<lambda>x. \<not> is_array_index x) (map fst (insert_index k v obj)) =
     filter (\<lambda>x. \<not> is_array_index x) (map fst obj)"
  by (induction obj) auto

lemma define_others:
  "filter (\<lambda>x. \<not> is_array_index x) (map fst (js_define obj k v)) =
     (if is_array_index k then filter (\<lambda>x. \<not> is_array_index x) (map fst obj)
      else add_key (filter (\<lambda>x. \<not> is_array_index x) (map fst obj)) k)"
proof (cases "k \<in> fst ` set obj")
  case True
  have keys: "map fst (js_define obj k v) = map fst obj"
    using True by (simp only: js_define_def if_True overwrite_keys)
  have "\<not> is_array_index k \<Longrightarrow> k \<in> set (filter (\<lambda>x. \<not> is_array_index x) (map fst obj))"
    using True by simp
  then show ?thesis by (auto simp: keys add_key_def)
next
  case False
  show ?thesis
  proof (cases "is_array_index k")
    case True
    have "js_define obj k v = insert_index k v obj"
      using True False by (simp add: js_define_def)
    then show ?thesis using True by (simp add: insert_index_others)
  next
    case index: False
    have "js_define obj k v = obj @ [(k, v)]"
      using index False by (simp add: js_define_def)
    moreover have "k \<notin> set (filter (\<lambda>x. \<not> is_array_index x) (map fst obj))"
      using False by simp
    ultimately show ?thesis using index by (simp add: add_key_def)
  qed
qed

lemma fold_assign_others:
  "filter (\<lambda>x. \<not> is_array_index x) (map fst (foldl assign_entry acc kvs)) =
     foldl add_key (filter (\<lambda>x. \<not> is_array_index x) (map fst acc))
       (filter (\<lambda>x. \<not> is_array_index x \<and> x \<noteq> ''__proto__'') (map fst kvs))"
proof (induction kvs arbitrary: acc)
  case Nil
  show ?case by simp
next
  case (Cons kv kvs)
  have step: "filter (\<lambda>x. \<not> is_array_index x) (map fst (assign_entry acc kv)) =
      (if \<not> is_array_index (fst kv) \<and> fst kv \<noteq> ''__proto__''
       then add_key (filter (\<lambda>x. \<not> is_array_index x) (map fst acc)) (fst kv)
       else filter (\<lambda>x. \<not> is_array_index x) (map fst acc))"
    by (simp add: assign_entry_def js_assign_def define_others)
  show ?case
    by (simp add: Cons.IH step)
qed

text \<open>
  Claim C2, as the code has it. The header parser returns one entry per distinct key among
  the lines that begin with \<open>---\<close> and contain a colon, the key \<open>__proto__\<close> apart, which is
  never stored. The value of a key is the value of the last line that has it: a line
  whose key was seen before replaces the value and adds no entry. The entries enumerate
  with the array-index keys first, in ascending numeric order, and the other keys after
  them in the order of their first lines. So when the keys of the \<open>N\<close> metadata lines are
  pairwise distinct, none of them is \<open>__proto__\<close> and none is an array index, the mapping
  has exactly the \<open>N\<close> entries of those lines, in line order. A line that does not begin
  with the marker, or has no colon, contributes nothing.
\<close>

theorem getExtraParameters_entries:
  "distinct (map fst (getExtraParameters query))
   \<and> fst ` set (getExtraParameters query) =
       set (map header_key (metadata_lines query)) - {''__proto__''}
   \<and> (\<forall>k. k \<noteq> ''__proto__'' \<longrightarrow>
         map_of (getExtraParameters query) k =
           map_of (rev (map header_entry (metadata_lines query))) k)
   \<and> index_first (map fst (getExtraParameters query))
   \<and> filter (\<lambda>k. \<not> is_array_index k) (map fst (getExtraParameters query)) =
       creation_order
         (filter (\<lambda>k. \<not> is_array_index k \<and> k \<noteq> ''__proto__'')
            (map header_key (metadata_lines query)))
   \<and> (distinct (map header_key (metadata_lines query))
        \<and> (\<forall>k \<in> set (map header_key (metadata_lines query)).
              k \<noteq> ''__proto__'' \<and> \<not> is_array_index k) \<longrightarrow>
      getExtraParameters query = map header_entry (metadata_lines query)
      \<and> length (getExtraParameters query) = length (metadata_lines query))
   \<and> (\<forall>l. \<not> is_metadata_line l \<and> NL \<notin> set l \<longrightarrow>
         getExtraParameters (a @ [NL] @ l @ [NL] @ b) = getExtraParameters (a @ [NL] @ b)
         \<and> getExtraParameters (l @ [NL] @ b) = getExtraParameters b
         \<and> getExtraParameters (a @ [NL] @ l) = getExtraParameters a)"
proof (intro conjI allI impI)
  show "distinct (map fst (getExtraParameters query))"
    by (simp add: getExtraParameters_fold fold_assign_distinct)
next
  have "fst ` set (map header_entry (metadata_lines query)) =
          set (map header_key (metadata_lines query))"
    by (simp add: image_image header_entry_def)
  then show "fst ` set (getExtraParameters query) =
       set (map header_key (metadata_lines query)) - {''__proto__''}"
    by (simp add: getExtraParameters_fold fold_assign_keys)
next
  fix k :: string assume "k \<noteq> ''__proto__''"
  then show "map_of (getExtraParameters query) k =
           map_of (rev (map header_entry (metadata_lines query))) k"
    by (simp add: getExtraParameters_fold fold_assign_lookup split: option.splits)
next
  show "index_first (map fst (getExtraParameters query))"
    by (simp add: getExtraParameters_fold fold_assign_index_first)
next
  have "map fst (map header_entry (metadata_lines query)) =
          map header_key (metadata_lines query)"
    by (simp add: header_entry_def)
  then show "filter (\<lambda>k. \<not> is_array_index k) (map fst (getExtraParameters query)) =
       creation_order
         (filter (\<lambda>k. \<not> is_array_index k \<and> k \<noteq> ''__proto__'')
            (map header_key (metadata_lines query)))"
    by (simp only: getExtraParameters_fold fold_assign_others creation_order_def)
       simp
next
  assume h: "distinct (map header_key (metadata_lines query))
        \<and> (\<forall>k \<in> set (map header_key (metadata_lines query)).
              k \<noteq> ''__proto__'' \<and> \<not> is_array_index k)"
  have keys: "map fst (map header_entry (metadata_lines query)) =
          map header_key (metadata_lines query)"
    by (simp add: header_entry_def)
  have d: "distinct (map fst (map header_entry (metadata_lines query)))"
    using h by (simp only: keys)
  have f: "\<forall>k \<in> fst ` set (map header_entry (metadata_lines query)).
      k \<noteq> ''__proto__'' \<and> \<not> is_array_index k \<and> k \<notin> fst ` set ([] :: js_object)"
    using h keys by (metis (no_types, lifting) empty_iff image_empty list.set(1) set_map)
  have "foldl assign_entry [] (map header_entry (metadata_lines query)) =
          [] @ map header_entry (metadata_lines query)"
    using d f by (rule fold_assign_fresh)
  then show eq: "getExtraParameters query = map header_entry (metadata_lines query)"
    by (simp add: getExtraParameters_fold)
  show "length (getExtraParameters query) = length (metadata_lines query)"
    by (simp add: eq)
next
  fix l assume "\<not> is_metadata_line l \<and> NL \<notin> set l"
  then have l: "\<not> is_metadata_line l" "NL \<notin> set l" by simp_all
  show "getExtraParameters (a @ [NL] @ l @ [NL] @ b) = getExtraParameters (a @ [NL] @ b)"
    using l by (rule getExtraParameters_skip_middle)
  show "getExtraParameters (l @ [NL] @ b) = getExtraParameters b"
    using l by (rule getExtraParameters_skip_first)
  show "getExtraParameters (a @ [NL] @ l) = getExtraParameters a"
    using l by (rule getExtraParameters_skip_last)
qed

lemma metadata_lines_example:
  "metadata_lines example_template = [''--- url: -'', ''--- limit: 100'', ''--- within: '']"
  by (simp add: metadata_lines_def example_template_def NL_def is_metadata_line_def
      startsWith_def)

lemma metadata_lines_duplicate:
  "metadata_lines duplicate_keys_template = [''--- b: 1'', ''--- 7: x'', ''--- b: 2'']"
  by (simp add: metadata_lines_def duplicate_keys_template_def NL_def is_metadata_line_def
      startsWith_def)

lemma not_array_index_letter: "\<not> is_array_index ''url''" "\<not> is_array_index ''limit''"
  "\<not> is_array_index ''within''"
  by (simp_all add: is_array_index_def is_digit_def)

theorem getExtraParameters_entries_witness:
  "map header_key (metadata_lines example_template) = [''url'', ''limit'', ''within'']
   \<and> getExtraParameters example_template =
       [(''url'', Str ''-''), (''limit'', Str ''100''), (''within'', Str [])]
   \<and> length (getExtraParameters example_template) = 3
   \<and> \<not> is_metadata_line ''SELECT 1 -- a: b'' \<and> NL \<notin> set ''SELECT 1 -- a: b''
   \<and> getExtraParameters (''--- a: 1'' @ [NL] @ ''SELECT 1 -- a: b'' @ [NL] @ ''--- c: 2'') =
       getExtraParameters (''--- a: 1'' @ [NL] @ ''--- c: 2'')"
proof -
  have keys: "map header_key (metadata_lines example_template) = [''url'', ''limit'', ''within'']"
    by (simp add: metadata_lines_example header_key_def property_key_def)
  have entries: "map header_entry (metadata_lines example_template) =
       [(''url'', Str ''-''), (''limit'', Str ''100''), (''within'', Str [])]"
    by (simp add: metadata_lines_example header_entry_def header_key_def header_value_def
        property_key_def js_index_def)
  have hyp: "distinct (map header_key (metadata_lines example_template))
        \<and> (\<forall>k \<in> set (map header_key (metadata_lines example_template)).
              k \<noteq> ''__proto__'' \<and> \<not> is_array_index k)"
    by (simp add: keys not_array_index_letter)
  have other: "\<not> is_metadata_line ''SELECT 1 -- a: b'' \<and> NL \<notin> set ''SELECT 1 -- a: b''"
    by (simp add: is_metadata_line_def startsWith_def NL_def)
  note t = getExtraParameters_entries [of example_template "''--- a: 1''" "''--- c: 2''"]
  have "getExtraParameters example_template = map header_entry (metadata_lines example_template)
      \<and> length (getExtraParameters example_template) = length (metadata_lines example_template)"
    using conjunct1 [OF conjunct2 [OF conjunct2 [OF conjunct2 [OF conjunct2 [OF conjunct2 [OF t]]]]]]
      hyp by blast
  moreover have "getExtraParameters (''--- a: 1'' @ [NL] @ ''SELECT 1 -- a: b'' @ [NL] @ ''--- c: 2'') =
       getExtraParameters (''--- a: 1'' @ [NL] @ ''--- c: 2'')"
    using conjunct2 [OF conjunct2 [OF conjunct2 [OF conjunct2 [OF conjunct2 [OF conjunct2 [OF t]]]]]]
      other by blast
  ultimately show ?thesis
    using keys entries other by (simp add: metadata_lines_example)
qed

theorem getExtraParameters_entries_counterexample:
  "metadata_lines duplicate_keys_template = [''--- b: 1'', ''--- 7: x'', ''--- b: 2'']
   \<and> getExtraParameters duplicate_keys_template = [(''7'', Str ''x''), (''b'', Str ''2'')]
   \<and> length (getExtraParameters duplicate_keys_template)
       \<noteq> length (metadata_lines duplicate_keys_template)"
proof -
  have "map header_entry (metadata_lines duplicate_keys_template) =
          [(''b'', Str ''1''), (''7'', Str ''x''), (''b'', Str ''2'')]"
    by (simp add: metadata_lines_duplicate header_entry_def header_key_def header_value_def
        property_key_def js_index_def)
  then have "getExtraParameters duplicate_keys_template = [(''7'', Str ''x''), (''b'', Str ''2'')]"
    by (simp add: getExtraParameters_fold assign_entry_def js_assign_def js_define_def
        is_array_index_def is_digit_def decimal_value_def digit_val_def)
  then show ?thesis by (simp add: metadata_lines_duplicate)
qed





section \<open>The request parameters in runExec\<close>







end
